theory Spec2Isabelle
  imports Main "HOL-Library.Finite_Map" "HOL-Library.AList"
begin

section \<open>Python values and option descriptors\<close>

text \<open>
  The values that occur in the option tables of \<^verbatim>\<open>lutris/sysoptions.py\<close>: \<^verbatim>\<open>None\<close>,
  integers, strings, tuples, lists and references to module-level functions (the
  \<^verbatim>\<open>choices\<close> and \<^verbatim>\<open>condition\<close> producers). Python's \<^verbatim>\<open>bool\<close> is a subclass of
  \<^verbatim>\<open>int\<close> with \<^verbatim>\<open>True == 1\<close> and \<^verbatim>\<open>False == 0\<close>, both under \<^verbatim>\<open>==\<close> and as dictionary
  keys, so \<^verbatim>\<open>True\<close> is written \<open>PInt 1\<close> and \<^verbatim>\<open>False\<close> is written \<open>PInt 0\<close>; with that,
  equality in HOL is Python's \<^verbatim>\<open>==\<close> on these values. Floating point numbers are left out.
\<close>

datatype pyval =
    PNone
  | PInt int
  | PStr string
  | PTuple "pyval list"
  | PList "pyval list"
  | PFun string

text \<open>A list is not hashable, and a tuple is hashable when all its items are.\<close>

fun hashable :: "pyval \<Rightarrow> bool" where
  "hashable (PList xs) = False"
| "hashable (PTuple xs) = (\<forall>x\<in>set xs. hashable x)"
| "hashable v = True"

text \<open>
  An option descriptor is a Python \<^verbatim>\<open>dict\<close> from field names to values. Equality of
  finite maps is the \<^verbatim>\<open>==\<close> of dictionaries (the order of insertion does not count).
\<close>

type_synonym descriptor = "(string, pyval) fmap"

text \<open>
  The exceptions that the modelled code raises or lets through. \<open>ScriptingError\<close> and
  \<open>PermissionError\<close> carry their message.
\<close>

datatype py_error =
    KeyError
  | TypeError
  | IndexError
  | ScriptingError string
  | PermissionError string
  | UnicodeDecodeError
  | OtherError string

text \<open>
  \<^verbatim>\<open>opt["option"]\<close>, used as the key of a dictionary: \<^verbatim>\<open>KeyError\<close> when the descriptor
  has no field \<^verbatim>\<open>"option"\<close>, \<^verbatim>\<open>TypeError\<close> when its value is not hashable.
\<close>

definition opt_key :: "descriptor \<Rightarrow> py_error + pyval" where
  "opt_key opt =
     (case fmlookup opt ''option'' of
        None \<Rightarrow> Inl KeyError
      | Some k \<Rightarrow> if hashable k then Inr k else Inl TypeError)"

section \<open>The override merge of \<^verbatim>\<open>with_runner_overrides\<close>\<close>

text \<open>
  An \<^verbatim>\<open>OrderedDict\<close> is an association list in insertion order. Assigning to a key that is
  present replaces the value where it stands, assigning to a new key appends: this is
  \<^const>\<open>AList.update\<close>.

  \<^verbatim>\<open>opts_dict = OrderedDict((opt["option"], opt) for opt in options)\<close>
\<close>

type_synonym opts_dict = "(pyval \<times> descriptor) list"

fun ordered_dict :: "opts_dict \<Rightarrow> descriptor list \<Rightarrow> py_error + opts_dict" where
  "ordered_dict acc [] = Inr acc"
| "ordered_dict acc (opt # options) =
     (case opt_key opt of
        Inl e \<Rightarrow> Inl e
      | Inr key \<Rightarrow> ordered_dict (AList.update key opt acc) options)"

text \<open>
  \<^verbatim>\<open>opts_dict.get(key)\<close> in the condition of an \<^verbatim>\<open>if\<close>: \<^verbatim>\<open>None\<close> is false, and a
  dictionary is true when it is not empty.
\<close>

definition get_truthy :: "opts_dict \<Rightarrow> pyval \<Rightarrow> bool" where
  "get_truthy od key =
     (case map_of od key of None \<Rightarrow> False | Some d \<Rightarrow> d \<noteq> fmempty)"

text \<open>
  The body of the loop, once \<^verbatim>\<open>key\<close> is known:
  \<^verbatim>\<open>
            if opts_dict.get(key):
                opts_dict[key] = opts_dict[key].copy()
                opts_dict[key].update(option)
            else:
                opts_dict[key] = option
  \<close>
  The copy updated with \<^verbatim>\<open>option\<close> is \<open>d ++\<^sub>f option\<close>.
\<close>

definition override_option :: "opts_dict \<Rightarrow> pyval \<Rightarrow> descriptor \<Rightarrow> opts_dict" where
  "override_option od key option =
     (if get_truthy od key
      then (case map_of od key of
              Some d \<Rightarrow> AList.update key (d ++\<^sub>f option) od
            | None \<Rightarrow> od)
      else AList.update key option od)"

text \<open>\<^verbatim>\<open>for option in runner.system_options_override: key = option["option"] ...\<close>\<close>

fun apply_overrides :: "opts_dict \<Rightarrow> descriptor list \<Rightarrow> py_error + opts_dict" where
  "apply_overrides od [] = Inr od"
| "apply_overrides od (option # overrides) =
     (case opt_key option of
        Inl e \<Rightarrow> Inl e
      | Inr key \<Rightarrow> apply_overrides (override_option od key option) overrides)"

text \<open>
  Lines 533 to 543, from \<^verbatim>\<open>if runner.system_options_override:\<close> to \<^verbatim>\<open>return options\<close>,
  with \<^verbatim>\<open>options\<close> bound to the base list and \<open>overrides\<close> the runner's list. An empty
  list is false, and the base list is then returned as it is.
\<close>

definition merge_overrides :: "descriptor list \<Rightarrow> descriptor list \<Rightarrow> py_error + descriptor list" where
  "merge_overrides options overrides =
     (if overrides \<noteq> []
      then (case ordered_dict [] options of
              Inl e \<Rightarrow> Inl e
            | Inr od \<Rightarrow>
                (case apply_overrides od overrides of
                   Inl e \<Rightarrow> Inl e
                 | Inr od' \<Rightarrow> Inr (map snd od')))
      else Inr options)"

text \<open>
  The runner classes live in \<^verbatim>\<open>lutris.runners\<close>, outside the two files; what the function
  reads of a runner is its attribute \<^verbatim>\<open>system_options_override\<close>, on the class and, when
  that is false, on a fresh instance. \<open>import_runner\<close> is \<open>None\<close> when
  \<^verbatim>\<open>runners.import_runner\<close> raises \<^verbatim>\<open>InvalidRunner\<close>.
\<close>

record runner =
  class_system_options_override :: "descriptor list"
  instance_system_options_override :: "descriptor list"

definition runner_overrides :: "runner \<Rightarrow> descriptor list" where
  "runner_overrides r =
     (if class_system_options_override r = []
      then instance_system_options_override r
      else class_system_options_override r)"

definition with_runner_overrides ::
  "descriptor list \<Rightarrow> (string \<Rightarrow> runner option) \<Rightarrow> string \<Rightarrow> py_error + descriptor list" where
  "with_runner_overrides system_options import_runner runner_slug =
     (case import_runner runner_slug of
        None \<Rightarrow> Inr system_options
      | Some r \<Rightarrow> merge_overrides system_options (runner_overrides r))"

text \<open>The example of the specification, with \<^verbatim>\<open>option\<close> as the key field.\<close>

definition example_options :: "descriptor list" where
  "example_options =
     [fmap_of_list [(''option'', PStr ''a''), (''v'', PInt 1)],
      fmap_of_list [(''option'', PStr ''b''), (''v'', PInt 2)],
      fmap_of_list [(''option'', PStr ''c''), (''v'', PInt 3)]]"

definition example_override_b :: descriptor where
  "example_override_b = fmap_of_list [(''option'', PStr ''b''), (''v'', PInt 99)]"

definition example_override_d :: descriptor where
  "example_override_d = fmap_of_list [(''option'', PStr ''d''), (''v'', PInt 4)]"

section \<open>The merge on a store of objects\<close>

text \<open>
  Python lists and dictionaries are objects that are shared by reference and changed in
  place. To see which objects \<^verbatim>\<open>with_runner_overrides\<close> changes, the same code is
  modelled a second time on an explicit store: a reference is an index into the store, a
  new object is put at the end, and a method that mutates its receiver replaces the object
  at the receiver's index. Lists hold references to dictionaries.
\<close>

type_synonym ref = nat

record store =
  dicts :: "descriptor list"
  lists :: "ref list list"

text \<open>
  \<open>NoObject\<close> is the outcome of following an index that holds no object. Python has no
  such reference; the outcome keeps the functions total on every store.
\<close>

datatype store_error = Raise py_error | NoObject

type_synonym 'a outcome = "(store_error + 'a) \<times> store"

definition dict_at :: "store \<Rightarrow> ref \<Rightarrow> store_error + descriptor" where
  "dict_at s a = (if a < length (dicts s) then Inr (dicts s ! a) else Inl NoObject)"

definition list_at :: "store \<Rightarrow> ref \<Rightarrow> store_error + ref list" where
  "list_at s r = (if r < length (lists s) then Inr (lists s ! r) else Inl NoObject)"

text \<open>\<^verbatim>\<open>d.copy()\<close> and \<^verbatim>\<open>list(...)\<close> make a new object and return its reference.\<close>

definition new_dict :: "store \<Rightarrow> descriptor \<Rightarrow> ref \<times> store" where
  "new_dict s d = (length (dicts s), s\<lparr>dicts := dicts s @ [d]\<rparr>)"

definition new_list :: "store \<Rightarrow> ref list \<Rightarrow> ref \<times> store" where
  "new_list s xs = (length (lists s), s\<lparr>lists := lists s @ [xs]\<rparr>)"

text \<open>\<^verbatim>\<open>target.update(option)\<close> changes the dictionary that \<open>target\<close> refers to.\<close>

definition dict_update :: "store \<Rightarrow> ref \<Rightarrow> ref \<Rightarrow> unit outcome" where
  "dict_update s target option =
     (case dict_at s target of
        Inl e \<Rightarrow> (Inl e, s)
      | Inr d \<Rightarrow>
          (case dict_at s option of
             Inl e \<Rightarrow> (Inl e, s)
           | Inr d' \<Rightarrow> (Inr (), s\<lparr>dicts := (dicts s)[target := d ++\<^sub>f d']\<rparr>)))"

text \<open>\<^verbatim>\<open>opt["option"]\<close> for the dictionary that \<open>opt\<close> refers to.\<close>

definition key_at :: "store \<Rightarrow> ref \<Rightarrow> store_error + pyval" where
  "key_at s opt =
     (case dict_at s opt of
        Inl e \<Rightarrow> Inl e
      | Inr d \<Rightarrow> (case opt_key d of Inl e \<Rightarrow> Inl (Raise e) | Inr k \<Rightarrow> Inr k))"

text \<open>The \<^verbatim>\<open>OrderedDict\<close> holds references. Building it reads the store only.\<close>

type_synonym opts_refs = "(pyval \<times> ref) list"

fun ordered_dict_refs :: "store \<Rightarrow> opts_refs \<Rightarrow> ref list \<Rightarrow> store_error + opts_refs" where
  "ordered_dict_refs s acc [] = Inr acc"
| "ordered_dict_refs s acc (opt # options) =
     (case key_at s opt of
        Inl e \<Rightarrow> Inl e
      | Inr key \<Rightarrow> ordered_dict_refs s (AList.update key opt acc) options)"

text \<open>
  The body of the loop, statement by statement:
  \<^verbatim>\<open>
            if opts_dict.get(key):
                opts_dict[key] = opts_dict[key].copy()
                opts_dict[key].update(option)
            else:
                opts_dict[key] = option
  \<close>
\<close>

definition override_option_refs :: "store \<Rightarrow> opts_refs \<Rightarrow> pyval \<Rightarrow> ref \<Rightarrow> opts_refs outcome" where
  "override_option_refs s od key option =
     (case map_of od key of
        None \<Rightarrow> (Inr (AList.update key option od), s)
      | Some a \<Rightarrow>
          (case dict_at s a of
             Inl e \<Rightarrow> (Inl e, s)
           | Inr d \<Rightarrow>
               if d \<noteq> fmempty
               then (let (copy, s1) = new_dict s d;
                         od1 = AList.update key copy od
                     in case map_of od1 key of
                          None \<Rightarrow> (Inl (Raise KeyError), s1)
                        | Some target \<Rightarrow>
                            (case dict_update s1 target option of
                               (Inl e, s2) \<Rightarrow> (Inl e, s2)
                             | (Inr u, s2) \<Rightarrow> (Inr od1, s2)))
               else (Inr (AList.update key option od), s)))"

fun apply_overrides_refs :: "store \<Rightarrow> opts_refs \<Rightarrow> ref list \<Rightarrow> opts_refs outcome" where
  "apply_overrides_refs s od [] = (Inr od, s)"
| "apply_overrides_refs s od (option # overrides) =
     (case key_at s option of
        Inl e \<Rightarrow> (Inl e, s)
      | Inr key \<Rightarrow>
          (case override_option_refs s od key option of
             (Inl e, s') \<Rightarrow> (Inl e, s')
           | (Inr od', s') \<Rightarrow> apply_overrides_refs s' od' overrides))"

text \<open>
  Lines 533 to 543 on the store: \<open>options\<close> and \<open>overrides\<close> refer to list objects, and so
  does the result, which is the base list itself when the override list is empty.
\<close>

definition merge_overrides_refs :: "store \<Rightarrow> ref \<Rightarrow> ref \<Rightarrow> ref outcome" where
  "merge_overrides_refs s options overrides =
     (case list_at s overrides of
        Inl e \<Rightarrow> (Inl e, s)
      | Inr ovs \<Rightarrow>
          if ovs \<noteq> []
          then (case list_at s options of
                  Inl e \<Rightarrow> (Inl e, s)
                | Inr opts \<Rightarrow>
                    (case ordered_dict_refs s [] opts of
                       Inl e \<Rightarrow> (Inl e, s)
                     | Inr od \<Rightarrow>
                         (case apply_overrides_refs s od ovs of
                            (Inl e, s') \<Rightarrow> (Inl e, s')
                          | (Inr od', s') \<Rightarrow>
                              (let (r, s'') = new_list s' (map snd od') in (Inr r, s'')))))
          else (Inr options, s))"

text \<open>
  The whole function on the store. The attribute \<^verbatim>\<open>system_options_override\<close> of the
  class and of an instance are references to list objects.
\<close>

record runner_refs =
  class_override_ref :: ref
  instance_override_ref :: ref

definition with_runner_overrides_refs ::
  "store \<Rightarrow> ref \<Rightarrow> (string \<Rightarrow> runner_refs option) \<Rightarrow> string \<Rightarrow> ref outcome" where
  "with_runner_overrides_refs s system_options import_runner runner_slug =
     (case import_runner runner_slug of
        None \<Rightarrow> (Inr system_options, s)
      | Some r \<Rightarrow>
          (case list_at s (class_override_ref r) of
             Inl e \<Rightarrow> (Inl e, s)
           | Inr cls \<Rightarrow>
               merge_overrides_refs s system_options
                 (if cls = [] then instance_override_ref r else class_override_ref r)))"

text \<open>The objects of \<open>s\<close> are all in \<open>s'\<close>, where they were and as they were.\<close>

definition unchanged :: "store \<Rightarrow> store \<Rightarrow> bool" where
  "unchanged s s' =
     (take (length (dicts s)) (dicts s') = dicts s
      \<and> take (length (lists s)) (lists s') = lists s)"

text \<open>
  The example of the specification in a store: the three base descriptors, the two
  overrides, the base list, the override list of the runner's class and the empty list.
\<close>

definition example_store :: store where
  "example_store =
     \<lparr>dicts = example_options @ [example_override_b, example_override_d],
      lists = [[0, 1, 2], [3, 4], []]\<rparr>"

definition example_import_runner :: "string \<Rightarrow> runner_refs option" where
  "example_import_runner slug =
     (if slug = ''wine''
      then Some \<lparr>class_override_ref = 1, instance_override_ref = 2\<rparr>
      else None)"

section \<open>The installer window\<close>

text \<open>
  An installer script is a dictionary. \<^verbatim>\<open>script.get(item) or ""\<close> keeps the value when it
  is true and puts the empty string otherwise; the truth value of a Python value:
\<close>

type_synonym script = "(string, pyval) fmap"

fun truthy :: "pyval \<Rightarrow> bool" where
  "truthy PNone = False"
| "truthy (PInt i) = (i \<noteq> 0)"
| "truthy (PStr s) = (s \<noteq> [])"
| "truthy (PTuple xs) = (xs \<noteq> [])"
| "truthy (PList xs) = (xs \<noteq> [])"
| "truthy (PFun f) = True"

definition get_or_empty :: "script \<Rightarrow> string \<Rightarrow> pyval" where
  "get_or_empty script item =
     (case fmlookup script item of
        None \<Rightarrow> PStr []
      | Some v \<Rightarrow> if truthy v then v else PStr [])"

text \<open>\<^verbatim>\<open>for item in ["description", "notes"]: script[item] = script.get(item) or ""\<close>\<close>

definition fix_script :: "script \<Rightarrow> script" where
  "fix_script script =
     fold (\<lambda>item s. fmupd item (get_or_empty s item) s) [''description'', ''notes''] script"

text \<open>
  \<^verbatim>\<open>_('Missing field "%s" in install script') % item\<close>, with the message as it is in the
  source (\<^verbatim>\<open>_\<close> is the translation of the message catalogue, taken as the identity).
\<close>

definition missing_field_message :: "string \<Rightarrow> string" where
  "missing_field_message item =
     ''Missing field '' @ [CHR 0x22] @ item @ [CHR 0x22] @ '' in install script''"

text \<open>
  \<^verbatim>\<open>for item in ["name", "runner", "version"]: if item not in script: raise ...\<close>:
  the first of the three fields that the script does not have, if any.
\<close>

definition first_missing_field :: "script \<Rightarrow> string option" where
  "first_missing_field script =
     find (\<lambda>item. item |\<notin>| fmdom script) [''name'', ''runner'', ''version'']"

text \<open>
  The loop over \<^verbatim>\<open>self.installers\<close>. The scripts are changed in place, so the list after
  the call is part of the outcome, also when the call raises.
\<close>

fun validate_each :: "script list \<Rightarrow> py_error option \<times> script list" where
  "validate_each [] = (None, [])"
| "validate_each (script # rest) =
     (let fixed = fix_script script
      in case first_missing_field fixed of
           Some item \<Rightarrow> (Some (ScriptingError (missing_field_message item)), fixed # rest)
         | None \<Rightarrow> (case validate_each rest of (raised, rest') \<Rightarrow> (raised, fixed # rest')))"

definition validate_scripts :: "script list \<Rightarrow> py_error option \<times> script list" where
  "validate_scripts installers =
     (if installers = []
      then (Some (ScriptingError ''No installer available''), installers)
      else validate_each installers)"

text \<open>
  What the claims need of the window: the scripts, the markup of the title label, the text
  of the status label, the scripts shown in the installer picker once there is one, and
  the state of the continue button (whether it is sensitive, the handlers connected to
  its \<^verbatim>\<open>clicked\<close> signal, and the handler kept in \<^verbatim>\<open>self.continue_handler\<close>).
\<close>

record installer_window =
  installers :: "script list"
  title_label :: string
  status_label :: string
  installer_picker :: "script list option"
  continue_sensitive :: bool
  continue_connected :: "nat list"
  continue_handler :: "nat option"

text \<open>
  \<^verbatim>\<open>choose_installer\<close>: validate, then set the title and show the picker. \<^verbatim>\<open>gtk_safe\<close> is
  in \<^verbatim>\<open>lutris.util.strings\<close>, outside the two files, and is a parameter.
\<close>

definition choose_installer ::
  "(pyval \<Rightarrow> string) \<Rightarrow> installer_window \<Rightarrow> py_error option \<times> installer_window" where
  "choose_installer gtk_safe w =
     (case validate_scripts (installers w) of
        (Some e, scripts) \<Rightarrow> (Some e, w\<lparr>installers := scripts\<rparr>)
      | (None, scripts) \<Rightarrow>
          (case scripts of
             [] \<Rightarrow> (Some IndexError, w\<lparr>installers := scripts\<rparr>)
           | base_script # others \<Rightarrow>
               (case fmlookup base_script ''name'' of
                  None \<Rightarrow> (Some KeyError, w\<lparr>installers := scripts\<rparr>)
                | Some name \<Rightarrow>
                    (None, w\<lparr>installers := scripts,
                             title_label := ''<b>Install '' @ gtk_safe name @ ''</b>'',
                             installer_picker := Some scripts\<rparr>))))"

text \<open>
  \<^verbatim>\<open>InstallerWindow.__init__\<close>: the widgets are built, then \<^verbatim>\<open>choose_installer\<close> runs. An
  exception leaves the constructor, and no window is returned.
\<close>

definition new_installer_window ::
  "(pyval \<Rightarrow> string) \<Rightarrow> script list \<Rightarrow> py_error + installer_window" where
  "new_installer_window gtk_safe scripts =
     (case choose_installer gtk_safe
             \<lparr>installers = scripts, title_label = [], status_label = [],
              installer_picker = None, continue_sensitive = True,
              continue_connected = [], continue_handler = None\<rparr> of
        (Some e, w) \<Rightarrow> Inl e
      | (None, w) \<Rightarrow> Inr w)"

text \<open>
  \<^verbatim>\<open>on_files_confirmed\<close>. \<^verbatim>\<open>file_box.start_all()\<close> belongs to the files box, outside the
  two files: \<open>start_all\<close> is what it raises, \<open>None\<close> when it returns. The message of a
  \<^verbatim>\<open>PermissionError\<close> is its \<^verbatim>\<open>str\<close>. Disconnecting removes the kept handler from the
  handlers of the button.
\<close>

definition on_files_confirmed ::
  "installer_window \<Rightarrow> py_error option \<Rightarrow> py_error option \<times> installer_window" where
  "on_files_confirmed w start_all =
     (let w1 = w\<lparr>status_label := []\<rparr>;
          w2 = w1\<lparr>continue_sensitive := False\<rparr>
      in case start_all of
           None \<Rightarrow>
             (None, w2\<lparr>continue_connected :=
                         filter (\<lambda>h. Some h \<noteq> continue_handler w2) (continue_connected w2)\<rparr>)
         | Some (PermissionError ex) \<Rightarrow>
             (Some (ScriptingError (''Unable to get files: '' @ ex)),
              w2\<lparr>continue_sensitive := True\<rparr>)
         | Some e \<Rightarrow> (Some e, w2))"

text \<open>Two scripts, the second without the field \<^verbatim>\<open>runner\<close>, and a window on the files screen.\<close>

definition example_scripts :: "script list" where
  "example_scripts =
     [fmap_of_list [(''name'', PStr ''Quake''), (''runner'', PStr ''linux''), (''version'', PStr ''GOG'')],
      fmap_of_list [(''name'', PStr ''Quake''), (''version'', PStr ''Steam'')]]"

definition example_gtk_safe :: "pyval \<Rightarrow> string" where
  "example_gtk_safe v = (case v of PStr s \<Rightarrow> s | _ \<Rightarrow> [])"

definition example_window :: installer_window where
  "example_window =
     \<lparr>installers = example_scripts, title_label = ''<b>Install Quake</b>'',
      status_label = ''Please review the files needed for the installation'',
      installer_picker = None, continue_sensitive = True,
      continue_connected = [7], continue_handler = Some 7\<rparr>"

section \<open>The choice lists of \<^verbatim>\<open>sysoptions.py\<close>\<close>

text \<open>
  A choice is a pair of a label and a value. The labels are the messages of the source
  (\<^verbatim>\<open>_\<close> taken as the identity). What the functions ask of the host is a parameter: the
  resolutions and display names that \<^verbatim>\<open>DISPLAY_MANAGER\<close> returns, the result of
  \<^verbatim>\<open>system.find_executable\<close> (\<open>None\<close> or a path), the paths that \<^verbatim>\<open>glob.glob\<close> returns
  for a pattern (none when the directory does not exist), the constant \<^verbatim>\<open>USE_DRI_PRIME\<close>
  and the bytes that the shell command run by \<^verbatim>\<open>subprocess.Popen\<close> writes, which
  \<^verbatim>\<open>communicate()[0]\<close> returns: its standard output and, since \<^verbatim>\<open>stderr\<close> is
  \<^verbatim>\<open>subprocess.STDOUT\<close>, the messages of the shell itself.

  A \<open>char\<close> is a byte. A Python \<^verbatim>\<open>str\<close> is written as its UTF-8 encoding; the tests
  \<^verbatim>\<open>in\<close> of the source have needles of ASCII letters, which occur in the text exactly
  where their bytes occur in its encoding.
\<close>

type_synonym choice = "string \<times> string"

text \<open>\<^verbatim>\<open>xs.insert(i, x)\<close> for an index \<open>i\<close> that is not negative.\<close>

definition list_insert :: "nat \<Rightarrow> 'a \<Rightarrow> 'a list \<Rightarrow> 'a list" where
  "list_insert i x xs = take i xs @ x # drop i xs"

definition get_resolution_choices :: "string list \<Rightarrow> choice list" where
  "get_resolution_choices resolutions =
     list_insert 0 (''Keep current'', ''off'') (zip resolutions resolutions)"

definition get_output_choices :: "string list \<Rightarrow> choice list" where
  "get_output_choices displays =
     list_insert 1 (''Primary'', ''primary'')
       (list_insert 0 (''Off'', ''off'') (zip displays displays))"

text \<open>The truth value of what \<^verbatim>\<open>find_executable\<close> returns.\<close>

definition found :: "string option \<Rightarrow> bool" where
  "found path = (case path of None \<Rightarrow> False | Some p \<Rightarrow> p \<noteq> [])"

definition get_optirun_choices :: "(string \<Rightarrow> string option) \<Rightarrow> choice list" where
  "get_optirun_choices find_executable =
     (let choices = [(''Off'', ''off'')];
          choices = (if found (find_executable ''primusrun'')
                     then choices @ [(''primusrun'', ''primusrun'')] else choices);
          choices = (if found (find_executable ''optirun'')
                     then choices @ [(''optirun/virtualgl'', ''optirun'')] else choices);
          choices = (if found (find_executable ''pvkrun'')
                     then choices @ [(''primus vk'', ''pvkrun'')] else choices)
      in choices)"

definition get_gpu_vendor_cmd :: "bool \<Rightarrow> bool \<Rightarrow> string" where
  "get_gpu_vendor_cmd use_dri_prime is_nvidia =
     (if is_nvidia
      then ''__GLX_VENDOR_LIBRARY_NAME=nvidia glxinfo | grep -i opengl | grep -i vendor''
      else if use_dri_prime
      then ''DRI_PRIME=1 glxinfo | grep -i opengl | grep -i vendor''
      else ''glxinfo | grep -i opengl | grep -i vendor'')"

text \<open>\<^verbatim>\<open>needle in haystack\<close> on strings, and \<^verbatim>\<open>sep.join(xs)\<close>.\<close>

fun str_in :: "string \<Rightarrow> string \<Rightarrow> bool" where
  "str_in needle [] = (needle = [])"
| "str_in needle (c # cs) = (take (length needle) (c # cs) = needle \<or> str_in needle cs)"

fun str_join :: "string \<Rightarrow> string list \<Rightarrow> string" where
  "str_join sep [] = []"
| "str_join sep [x] = x"
| "str_join sep (x # y # ys) = x @ sep @ str_join sep (y # ys)"

text \<open>\<^verbatim>\<open>os.path.join(path, *parts)\<close> of \<^verbatim>\<open>posixpath\<close>.\<close>

definition path_join_step :: "string \<Rightarrow> string \<Rightarrow> string" where
  "path_join_step part path =
     (if take 1 part = ''/'' then part
      else if path = [] \<or> drop (length path - 1) path = ''/'' then path @ part
      else path @ ''/'' @ part)"

definition os_path_join :: "string \<Rightarrow> string list \<Rightarrow> string" where
  "os_path_join path parts = fold path_join_step parts path"

definition VULKAN_DATA_DIRS :: "string list" where
  "VULKAN_DATA_DIRS =
     [''/usr/local/etc/vulkan'',
      ''/usr/local/share/vulkan'',
      ''/etc/vulkan'',
      ''/usr/share/vulkan'',
      ''/usr/lib/x86_64-linux-gnu/GL/vulkan'',
      ''/usr/lib/i386-linux-gnu/GL/vulkan'',
      ''/opt/amdgpu-pro/etc/vulkan'']"

text \<open>
  The five lists that the loop of \<^verbatim>\<open>get_vk_icd_choices\<close> fills, and its body for one
  loader. The dictionary \<^verbatim>\<open>icd_files\<close> that the loop fills as well is never read, and
  is left out.
\<close>

record icd_loaders =
  intel :: "string list"
  amdradv :: "string list"
  nvidia :: "string list"
  amdvlk :: "string list"
  amdvlkpro :: "string list"

definition add_loader :: "string \<Rightarrow> icd_loaders \<Rightarrow> icd_loaders" where
  "add_loader loader l =
     (if str_in ''intel'' loader then l\<lparr>intel := intel l @ [loader]\<rparr>
      else if str_in ''radeon'' loader then l\<lparr>amdradv := amdradv l @ [loader]\<rparr>
      else if str_in ''nvidia'' loader then l\<lparr>nvidia := nvidia l @ [loader]\<rparr>
      else if str_in ''amd'' loader
      then (if str_in ''pro'' loader
            then l\<lparr>amdvlkpro := amdvlkpro l @ [loader]\<rparr>
            else l\<lparr>amdvlk := amdvlk l @ [loader]\<rparr>)
      else l)"

definition find_loaders :: "(string \<Rightarrow> string list) \<Rightarrow> icd_loaders" where
  "find_loaders glob =
     fold (\<lambda>data_dir l. fold add_loader (glob (os_path_join data_dir [''icd.d'', ''*.json''])) l)
       VULKAN_DATA_DIRS
       \<lparr>intel = [], amdradv = [], nvidia = [], amdvlk = [], amdvlkpro = []\<rparr>"

text \<open>
  \<^verbatim>\<open>bytes.decode("utf-8")\<close> raises \<^verbatim>\<open>UnicodeDecodeError\<close> unless the bytes are well-formed
  UTF-8: one byte up to \<open>7F\<close>; a lead byte \<open>C2\<close> to \<open>DF\<close> and one continuation byte; a
  lead byte \<open>E0\<close> to \<open>EF\<close> and two; a lead byte \<open>F0\<close> to \<open>F4\<close> and three; where the
  first continuation byte after \<open>E0\<close>, \<open>ED\<close>, \<open>F0\<close> and \<open>F4\<close> is in a smaller range,
  which leaves out overlong forms, surrogates and code points above \<open>10FFFF\<close>. The text
  decoded is then these bytes.
\<close>

definition continuation :: "nat \<Rightarrow> bool" where
  "continuation b = (0x80 \<le> b \<and> b \<le> 0xBF)"

fun well_formed_utf8 :: "nat list \<Rightarrow> bool" where
  "well_formed_utf8 [] = True"
| "well_formed_utf8 (b # bs) =
     (if b \<le> 0x7F then well_formed_utf8 bs
      else if 0xC2 \<le> b \<and> b \<le> 0xDF
      then (case bs of
              c1 # rest \<Rightarrow> continuation c1 \<and> well_formed_utf8 rest
            | _ \<Rightarrow> False)
      else if 0xE0 \<le> b \<and> b \<le> 0xEF
      then (case bs of
              c1 # c2 # rest \<Rightarrow>
                (if b = 0xE0 then 0xA0 \<le> c1 \<and> c1 \<le> 0xBF
                 else if b = 0xED then 0x80 \<le> c1 \<and> c1 \<le> 0x9F
                 else continuation c1)
                \<and> continuation c2 \<and> well_formed_utf8 rest
            | _ \<Rightarrow> False)
      else if 0xF0 \<le> b \<and> b \<le> 0xF4
      then (case bs of
              c1 # c2 # c3 # rest \<Rightarrow>
                (if b = 0xF0 then 0x90 \<le> c1 \<and> c1 \<le> 0xBF
                 else if b = 0xF4 then 0x80 \<le> c1 \<and> c1 \<le> 0x8F
                 else continuation c1)
                \<and> continuation c2 \<and> continuation c3 \<and> well_formed_utf8 rest
            | _ \<Rightarrow> False)
      else False)"

definition decode_utf8 :: "string \<Rightarrow> py_error + string" where
  "decode_utf8 bytes =
     (if well_formed_utf8 (map of_char bytes) then Inr bytes else Inl UnicodeDecodeError)"

text \<open>
  \<^verbatim>\<open>get_vk_icd_choices\<close>. \<open>communicate\<close> gives, for a shell command, the bytes that
  \<^verbatim>\<open>glxvendorget.communicate()[0]\<close> holds. Decoding them is the one step of the function
  that can raise.
\<close>

definition get_vk_icd_choices ::
  "(string \<Rightarrow> string list) \<Rightarrow> bool \<Rightarrow> (string \<Rightarrow> string) \<Rightarrow> py_error + choice list" where
  "get_vk_icd_choices glob use_dri_prime communicate =
     (let choices = [(''Auto: WARNING -- No Vulkan Loader detected!'', [])];
          l = find_loaders glob;
          intel_files = str_join '':'' (intel l);
          amdradv_files = str_join '':'' (amdradv l);
          nvidia_files = str_join '':'' (nvidia l);
          amdvlk_files = str_join '':'' (amdvlk l);
          amdvlkpro_files = str_join '':'' (amdvlkpro l);
          glxinfocmd = get_gpu_vendor_cmd use_dri_prime (nvidia_files \<noteq> [])
      in case decode_utf8 (communicate glxinfocmd) of
           Inl e \<Rightarrow> Inl e
         | Inr glxvendor \<Rightarrow>
             (let default_gpu = glxvendor;
                  choices =
                    (if str_in ''Intel'' default_gpu
                     then [(''Auto: Intel Open Source (MESA: ANV)'', intel_files)]
                     else if str_in ''AMD'' default_gpu
                     then [(''Auto: AMD RADV Open Source (MESA: RADV)'', amdradv_files)]
                     else if str_in ''NVIDIA'' default_gpu
                     then [(''Auto: Nvidia Proprietary'', nvidia_files)]
                     else choices);
                  choices = (if intel_files \<noteq> []
                             then choices @ [(''Intel Open Source (MESA: ANV)'', intel_files)]
                             else choices);
                  choices = (if amdradv_files \<noteq> []
                             then choices @ [(''AMD RADV Open Source (MESA: RADV)'', amdradv_files)]
                             else choices);
                  choices = (if nvidia_files \<noteq> []
                             then choices @ [(''Nvidia Proprietary'', nvidia_files)]
                             else choices);
                  choices = (if amdvlk_files \<noteq> []
                             then (if amdvlkpro_files = []
                                   then choices @ [(''AMDVLK/AMDGPU-PRO Proprietary'', amdvlk_files)]
                                   else choices @ [(''AMDVLK Open source'', amdvlk_files)])
                             else choices);
                  choices = (if amdvlkpro_files \<noteq> []
                             then choices @ [(''AMDGPU-PRO Proprietary'', amdvlkpro_files)]
                             else choices)
              in Inr choices))"

text \<open>
  Hosts for the examples: no Vulkan directory at all; one Intel loader under
  \<^verbatim>\<open>/usr/share/vulkan\<close>; a \<^verbatim>\<open>glxinfo\<close> that reports an Intel GPU; no \<^verbatim>\<open>glxinfo\<close>, so
  that the only output is the message of the shell, in English and, under a Portuguese
  locale with the character set ISO-8859-1, with the letter \<open>a\<close> with tilde as the single
  byte \<open>E3\<close>; no executable found.
\<close>

definition no_vulkan_dirs :: "string \<Rightarrow> string list" where
  "no_vulkan_dirs pattern = []"

definition intel_vulkan_dir :: "string \<Rightarrow> string list" where
  "intel_vulkan_dir pattern =
     (if pattern = ''/usr/share/vulkan/icd.d/*.json''
      then [''/usr/share/vulkan/icd.d/intel_icd.x86_64.json'']
      else [])"

definition intel_glxinfo :: "string \<Rightarrow> string" where
  "intel_glxinfo cmd = ''OpenGL vendor string: Intel'' @ [CHR 0x0A]"

definition no_glxinfo :: "string \<Rightarrow> string" where
  "no_glxinfo cmd = ''/bin/sh: 1: glxinfo: not found'' @ [CHR 0x0A]"

definition no_glxinfo_latin1 :: "string \<Rightarrow> string" where
  "no_glxinfo_latin1 cmd =
     ''/bin/sh: linha 1: glxinfo: comando n'' @ [CHR 0xE3] @ ''o encontrado'' @ [CHR 0x0A]"

definition no_executable :: "string \<Rightarrow> string option" where
  "no_executable name = None"

text \<open>Whether the output of \<^verbatim>\<open>glxinfo\<close> names one of the three vendors that the code looks for.\<close>

definition names_vendor :: "string \<Rightarrow> bool" where
  "names_vendor default_gpu =
     (str_in ''Intel'' default_gpu \<or> str_in ''AMD'' default_gpu \<or> str_in ''NVIDIA'' default_gpu)"

text \<open>The bytes that the vendor command of \<^verbatim>\<open>get_vk_icd_choices\<close> writes on a host.\<close>

definition vendor_output :: "(string \<Rightarrow> string list) \<Rightarrow> bool \<Rightarrow> (string \<Rightarrow> string) \<Rightarrow> string" where
  "vendor_output glob use_dri_prime communicate =
     communicate
       (get_gpu_vendor_cmd use_dri_prime (str_join '':'' (nvidia (find_loaders glob)) \<noteq> []))"

section \<open>Notions used to state the properties of the merge\<close>

text \<open>The elements of a list, each at its first occurrence.\<close>

fun first_occurrences :: "'a list \<Rightarrow> 'a list" where
  "first_occurrences [] = []"
| "first_occurrences (x # xs) = x # first_occurrences (filter (\<lambda>y. y \<noteq> x) xs)"

text \<open>
  The invariant of the working dictionary: its keys are distinct, and every descriptor is
  stored under its own key.
\<close>

definition od_inv :: "opts_dict \<Rightarrow> bool" where
  "od_inv od = (distinct (map fst od) \<and> (\<forall>(k, d)\<in>set od. opt_key d = Inr k))"

text \<open>The descriptor stored under a key, the empty dictionary when there is none.\<close>

definition stored :: "opts_dict \<Rightarrow> pyval \<Rightarrow> descriptor" where
  "stored od k = (case map_of od k of Some d \<Rightarrow> d | None \<Rightarrow> fmempty)"

text \<open>A descriptor updated by the overrides of key \<open>k\<close>, in their order.\<close>

definition updated_by :: "descriptor list \<Rightarrow> pyval \<Rightarrow> descriptor \<Rightarrow> descriptor" where
  "updated_by overrides k d =
     fold (\<lambda>option d. d ++\<^sub>f option) (filter (\<lambda>x. opt_key x = Inr k) overrides) d"

text \<open>
  An entry of the dictionary of references stands for an entry of the dictionary of
  values: same key, and the reference leads to the value.
\<close>

definition holds :: "store \<Rightarrow> pyval \<times> ref \<Rightarrow> pyval \<times> descriptor \<Rightarrow> bool" where
  "holds s p q = (fst p = fst q \<and> dict_at s (snd p) = Inr (snd q))"

section \<open>Properties of the override merge\<close>

subsection \<open>The working dictionary\<close>

lemma opt_key_nonempty: "opt_key d = Inr k \<Longrightarrow> d \<noteq> fmempty"
  by (auto simp: opt_key_def)

lemma opt_key_fmadd: "opt_key option = Inr k \<Longrightarrow> opt_key (d ++\<^sub>f option) = Inr k"
  by (auto simp: opt_key_def fmdomI split: option.splits if_splits)

lemma update_fresh: "k \<notin> fst ` set al \<Longrightarrow> AList.update k v al = al @ [(k, v)]"
  by (induction al) auto

lemma set_update_subset: "set (AList.update k v al) \<subseteq> insert (k, v) (set al)"
  by (induction al) auto

lemma od_inv_update: "od_inv od \<Longrightarrow> opt_key d = Inr k \<Longrightarrow> od_inv (AList.update k d od)"
  unfolding od_inv_def using set_update_subset [of k d od]
  by (auto simp: distinct_update)

lemma override_option_eq:
  assumes "od_inv od"
  shows "override_option od k option = AList.update k (stored od k ++\<^sub>f option) od"
proof (cases "map_of od k")
  case None
  then show ?thesis by (simp add: override_option_def get_truthy_def stored_def)
next
  case (Some d)
  then have "(k, d) \<in> set od" by (rule map_of_SomeD)
  with assms have "opt_key d = Inr k" by (auto simp: od_inv_def)
  then have "d \<noteq> fmempty" by (rule opt_key_nonempty)
  with Some show ?thesis by (simp add: override_option_def get_truthy_def stored_def)
qed

lemma override_option_inv:
  "od_inv od \<Longrightarrow> opt_key option = Inr k \<Longrightarrow> od_inv (override_option od k option)"
  by (simp add: override_option_eq od_inv_update opt_key_fmadd)

lemma set_first_occurrences: "set (first_occurrences xs) = set xs"
  by (induction xs rule: first_occurrences.induct) auto

lemma distinct_first_occurrences: "distinct (first_occurrences xs)"
  by (induction xs rule: first_occurrences.induct) (auto simp: set_first_occurrences)

lemma length_first_occurrences: "length (first_occurrences xs) = card (set xs)"
  using distinct_card [OF distinct_first_occurrences, of xs]
  by (simp add: set_first_occurrences)

lemma first_occurrences_distinct: "distinct xs \<Longrightarrow> first_occurrences xs = xs"
proof (induction xs)
  case Nil
  then show ?case by simp
next
  case (Cons x xs)
  then have "filter (\<lambda>y. y \<noteq> x) xs = xs" by (auto intro: filter_True)
  with Cons show ?case by simp
qed

lemma ordered_dict_append:
  assumes "map opt_key options = map Inr ks" and "distinct ks"
    and "set ks \<inter> fst ` set acc = {}"
  shows "ordered_dict acc options = Inr (acc @ zip ks options)"
  using assms
proof (induction options arbitrary: acc ks)
  case Nil
  then show ?case by simp
next
  case (Cons opt options)
  then obtain k ks' where ks: "ks = k # ks'" by (cases ks) auto
  with Cons.prems have key: "opt_key opt = Inr k"
    and rest: "map opt_key options = map Inr ks'"
    and dist: "distinct ks'" and fresh: "k \<notin> fst ` set acc" and notin: "k \<notin> set ks'"
    and disj: "set ks' \<inter> fst ` set acc = {}"
    by auto
  have upd: "AList.update k opt acc = acc @ [(k, opt)]"
    using fresh by (rule update_fresh)
  have "set ks' \<inter> fst ` set (acc @ [(k, opt)]) = {}"
    using disj notin by auto
  with Cons.IH [OF rest dist, of "acc @ [(k, opt)]"]
  have "ordered_dict (acc @ [(k, opt)]) options = Inr ((acc @ [(k, opt)]) @ zip ks' options)"
    by simp
  then show ?case by (simp add: key upd ks)
qed

lemma ordered_dict_inv: "od_inv acc \<Longrightarrow> ordered_dict acc options = Inr od \<Longrightarrow> od_inv od"
proof (induction options arbitrary: acc)
  case Nil
  then show ?case by simp
next
  case (Cons opt options)
  then show ?case
    by (auto split: sum.splits dest: od_inv_update)
qed

lemma apply_overrides_inv:
  "od_inv od \<Longrightarrow> apply_overrides od overrides = Inr od' \<Longrightarrow> od_inv od'"
proof (induction overrides arbitrary: od)
  case Nil
  then show ?case by simp
next
  case (Cons option overrides)
  then show ?case
    by (auto split: sum.splits dest: override_option_inv)
qed

lemma apply_overrides_succeeds:
  "map opt_key overrides = map Inr oks \<Longrightarrow> \<exists>od'. apply_overrides od overrides = Inr od'"
proof (induction overrides arbitrary: od oks)
  case Nil
  then show ?case by simp
next
  case (Cons option overrides)
  then obtain k oks' where "oks = k # oks'" by (cases oks) auto
  with Cons show ?case by auto
qed

lemma filter_key_empty:
  "map opt_key overrides = map Inr oks \<Longrightarrow> k \<notin> set oks \<Longrightarrow>
     filter (\<lambda>x. opt_key x = Inr k) overrides = []"
proof (induction overrides arbitrary: oks)
  case Nil
  then show ?case by simp
next
  case (Cons option overrides)
  then obtain k' oks' where "oks = k' # oks'" by (cases oks) auto
  with Cons show ?case by auto
qed

lemma stored_update:
  "stored (AList.update k v od) k' = (if k' = k then v else stored od k')"
  by (simp add: stored_def update_conv')

lemma apply_overrides_keys:
  assumes "od_inv od" and "map opt_key overrides = map Inr oks"
    and "apply_overrides od overrides = Inr od'"
  shows "map fst od' = map fst od @ first_occurrences (filter (\<lambda>k. k \<notin> fst ` set od) oks)"
  using assms
proof (induction overrides arbitrary: od oks)
  case Nil
  then show ?case by simp
next
  case (Cons option overrides)
  then obtain k oks' where oks: "oks = k # oks'" by (cases oks) auto
  with Cons.prems have key: "opt_key option = Inr k"
    and rest: "map opt_key overrides = map Inr oks'" by auto
  let ?od1 = "override_option od k option"
  have inv1: "od_inv ?od1" using Cons.prems(1) key by (rule override_option_inv)
  have run: "apply_overrides ?od1 overrides = Inr od'" using Cons.prems(3) key by simp
  have IH: "map fst od' = map fst ?od1 @ first_occurrences (filter (\<lambda>k. k \<notin> fst ` set ?od1) oks')"
    using Cons.IH [OF inv1 rest run] .
  have eq: "?od1 = AList.update k (stored od k ++\<^sub>f option) od"
    using Cons.prems(1) by (rule override_option_eq)
  show ?case
  proof (cases "k \<in> fst ` set od")
    case True
    then have "map fst ?od1 = map fst od" and "fst ` set ?od1 = fst ` set od"
      by (auto simp: eq update_keys dom_update)
    with IH True show ?thesis by (simp add: oks)
  next
    case False
    then have keys1: "map fst ?od1 = map fst od @ [k]"
      and dom1: "fst ` set ?od1 = insert k (fst ` set od)"
      by (auto simp: eq update_keys dom_update)
    have "filter (\<lambda>k'. k' \<notin> insert k (fst ` set od)) oks'
        = filter (\<lambda>y. y \<noteq> k) (filter (\<lambda>k'. k' \<notin> fst ` set od) oks')"
      by (auto intro: filter_cong)
    with IH False show ?thesis by (simp add: oks keys1 dom1)
  qed
qed

lemma apply_overrides_lookup:
  assumes "od_inv od" and "map opt_key overrides = map Inr oks"
    and "apply_overrides od overrides = Inr od'"
  shows "map_of od' k =
     (if k \<in> set oks
      then Some (fold (\<lambda>option d. d ++\<^sub>f option) (filter (\<lambda>x. opt_key x = Inr k) overrides) (stored od k))
      else map_of od k)"
  using assms
proof (induction overrides arbitrary: od oks)
  case Nil
  then show ?case by simp
next
  case (Cons option overrides)
  then obtain k0 oks' where oks: "oks = k0 # oks'" by (cases oks) auto
  with Cons.prems have key: "opt_key option = Inr k0"
    and rest: "map opt_key overrides = map Inr oks'" by auto
  let ?od1 = "override_option od k0 option"
  have inv1: "od_inv ?od1" using Cons.prems(1) key by (rule override_option_inv)
  have run: "apply_overrides ?od1 overrides = Inr od'" using Cons.prems(3) key by simp
  note IH = Cons.IH [OF inv1 rest run]
  have eq: "?od1 = AList.update k0 (stored od k0 ++\<^sub>f option) od"
    using Cons.prems(1) by (rule override_option_eq)
  show ?case
  proof (cases "k = k0")
    case True
    show ?thesis
    proof (cases "k0 \<in> set oks'")
      case True
      with IH \<open>k = k0\<close> show ?thesis by (simp add: oks key eq stored_update)
    next
      case False
      with IH \<open>k = k0\<close> filter_key_empty [OF rest False]
      show ?thesis by (simp add: oks key eq update_conv')
    qed
  next
    case False
    with IH show ?thesis by (simp add: oks key eq stored_update update_conv')
  qed
qed

lemma fold_fmadd_empty:
  "fold (\<lambda>option d. d ++\<^sub>f option) os d = d ++\<^sub>f fold (\<lambda>option d. d ++\<^sub>f option) os fmempty"
proof (induction os arbitrary: d)
  case Nil
  then show ?case by simp
next
  case (Cons a os)
  have "fold (\<lambda>option d. d ++\<^sub>f option) (a # os) d = (d ++\<^sub>f a) ++\<^sub>f fold (\<lambda>option d. d ++\<^sub>f option) os fmempty"
    using Cons.IH [of "d ++\<^sub>f a"] by simp
  moreover have "fold (\<lambda>option d. d ++\<^sub>f option) (a # os) fmempty = a ++\<^sub>f fold (\<lambda>option d. d ++\<^sub>f option) os fmempty"
    using Cons.IH [of a] by simp
  ultimately show ?case by simp
qed

lemma fold_fmadd_twice:
  "fold (\<lambda>option d. d ++\<^sub>f option) os (fold (\<lambda>option d. d ++\<^sub>f option) os d)
     = fold (\<lambda>option d. d ++\<^sub>f option) os d"
proof -
  let ?m = "fold (\<lambda>option d. d ++\<^sub>f option) os fmempty"
  have "fold (\<lambda>option d. d ++\<^sub>f option) os (fold (\<lambda>option d. d ++\<^sub>f option) os d) = (d ++\<^sub>f ?m) ++\<^sub>f ?m"
    using fold_fmadd_empty [of os "fold (\<lambda>option d. d ++\<^sub>f option) os d"] fold_fmadd_empty [of os d]
    by simp
  also have "\<dots> = d ++\<^sub>f ?m" by (metis fmadd_assoc fmadd_idempotent)
  also have "\<dots> = fold (\<lambda>option d. d ++\<^sub>f option) os d"
    using fold_fmadd_empty [of os d] by simp
  finally show ?thesis .
qed

lemma map_of_distinct_values:
  assumes "distinct (map fst xs)" and "map fst xs = map fst ys" and "map_of xs = map_of ys"
  shows "xs = ys"
proof (rule nth_equalityI)
  show len: "length xs = length ys" using assms(2) by (metis length_map)
  fix i assume i: "i < length xs"
  have dy: "distinct (map fst ys)" using assms(1,2) by simp
  have "map_of xs (fst (xs ! i)) = Some (snd (xs ! i))"
    using assms(1) i by (simp add: map_of_eq_Some_iff)
  moreover have "map_of ys (fst (ys ! i)) = Some (snd (ys ! i))"
    using dy i len by (simp add: map_of_eq_Some_iff)
  moreover have "fst (xs ! i) = fst (ys ! i)"
    using assms(2) i len by (metis nth_map)
  ultimately show "xs ! i = ys ! i"
    using assms(3) by (simp add: prod_eq_iff)
qed

lemma apply_overrides_keys_exist:
  "apply_overrides od overrides = Inr od' \<Longrightarrow> \<exists>oks. map opt_key overrides = map Inr oks"
proof (induction overrides arbitrary: od)
  case Nil
  then show ?case by simp
next
  case (Cons option overrides)
  then obtain k where k: "opt_key option = Inr k"
    and run: "apply_overrides (override_option od k option) overrides = Inr od'"
    by (auto split: sum.splits)
  from Cons.IH [OF run] obtain oks where "map opt_key overrides = map Inr oks" ..
  with k have "map opt_key (option # overrides) = map Inr (k # oks)" by simp
  then show ?case ..
qed

lemma od_inv_values:
  "od_inv od \<Longrightarrow> map opt_key (map snd od) = map Inr (map fst od)"
  by (auto simp: od_inv_def)

lemma ordered_dict_values:
  assumes "od_inv od"
  shows "ordered_dict [] (map snd od) = Inr od"
proof -
  have "ordered_dict [] (map snd od) = Inr ([] @ zip (map fst od) (map snd od))"
    using assms by (intro ordered_dict_append od_inv_values) (auto simp: od_inv_def)
  then show ?thesis by (simp add: zip_map_fst_snd)
qed

lemma apply_overrides_twice:
  assumes "od_inv od" and "apply_overrides od overrides = Inr od'"
  shows "apply_overrides od' overrides = Inr od'"
proof -
  from assms(2) obtain oks where oks: "map opt_key overrides = map Inr oks"
    using apply_overrides_keys_exist by blast
  have inv': "od_inv od'" using assms by (rule apply_overrides_inv)
  obtain od'' where run: "apply_overrides od' overrides = Inr od''"
    using apply_overrides_succeeds [OF oks] by blast
  have inv'': "od_inv od''" using inv' run by (rule apply_overrides_inv)
  have keys': "map fst od' = map fst od @ first_occurrences (filter (\<lambda>k. k \<notin> fst ` set od) oks)"
    using assms(1) oks assms(2) by (rule apply_overrides_keys)
  have "set oks \<subseteq> set (map fst od')"
    unfolding keys' by (auto simp: set_first_occurrences)
  then have "filter (\<lambda>k. k \<notin> fst ` set od') oks = []"
    by (auto simp: filter_empty_conv)
  with apply_overrides_keys [OF inv' oks run]
  have keys'': "map fst od'' = map fst od'" by simp
  have "map_of od'' k = map_of od' k" for k
  proof (cases "k \<in> set oks")
    case True
    let ?os = "filter (\<lambda>x. opt_key x = Inr k) overrides"
    have "map_of od' k = Some (fold (\<lambda>option d. d ++\<^sub>f option) ?os (stored od k))"
      using apply_overrides_lookup [OF assms(1) oks assms(2), of k] True by simp
    moreover from this have "stored od' k = fold (\<lambda>option d. d ++\<^sub>f option) ?os (stored od k)"
      by (simp add: stored_def)
    moreover have "map_of od'' k = Some (fold (\<lambda>option d. d ++\<^sub>f option) ?os (stored od' k))"
      using apply_overrides_lookup [OF inv' oks run, of k] True by simp
    ultimately show ?thesis by (simp add: fold_fmadd_twice)
  next
    case False
    then show ?thesis using apply_overrides_lookup [OF inv' oks run, of k] by simp
  qed
  then have "map_of od'' = map_of od'" by (rule ext)
  with inv'' keys'' have "od'' = od'"
    by (intro map_of_distinct_values) (auto simp: od_inv_def)
  with run show ?thesis by simp
qed

lemma od_inv_Nil: "od_inv []"
  by (simp add: od_inv_def)

lemma opt_key_fold_fmadd:
  "opt_key d = Inr k \<Longrightarrow> \<forall>x\<in>set os. opt_key x = Inr k \<Longrightarrow>
     opt_key (fold (\<lambda>option d. d ++\<^sub>f option) os d) = Inr k"
  by (induction os arbitrary: d) (auto simp: opt_key_fmadd)

lemma opt_key_updated_by:
  "opt_key d = Inr k \<Longrightarrow> opt_key (updated_by overrides k d) = Inr k"
  unfolding updated_by_def by (rule opt_key_fold_fmadd) auto

lemma opt_key_updated_by_new:
  assumes "map opt_key overrides = map Inr oks" and "k \<in> set oks"
  shows "opt_key (updated_by overrides k fmempty) = Inr k"
proof -
  let ?os = "filter (\<lambda>x. opt_key x = Inr k) overrides"
  from assms(2) have "Inr k \<in> set (map opt_key overrides)" unfolding assms(1) by simp
  then obtain x where "x \<in> set overrides" and "opt_key x = Inr k" by auto
  then have "?os \<noteq> []" by (auto simp: filter_empty_conv)
  then obtain y ys where os: "?os = y # ys" by (cases ?os) auto
  then have "y \<in> set ?os" and sub: "set ys \<subseteq> set ?os" by auto
  then have y: "opt_key y = Inr k" by simp
  have "\<forall>x\<in>set ys. opt_key x = Inr k" using sub by auto
  with y have "opt_key (fold (\<lambda>option d. d ++\<^sub>f option) ys (fmempty ++\<^sub>f y)) = Inr k"
    by (intro opt_key_fold_fmadd) simp_all
  then show ?thesis by (simp add: updated_by_def os)
qed

lemma alist_by_keys:
  assumes "distinct (map fst xs)"
  shows "map snd xs = map (\<lambda>k. the (map_of xs k)) (map fst xs)"
  unfolding map_map
proof (rule map_cong [OF refl])
  fix p assume "p \<in> set xs"
  with assms have "map_of xs (fst p) = Some (snd p)" by (simp add: map_of_eq_Some_iff)
  then show "snd p = ((\<lambda>k. the (map_of xs k)) \<circ> fst) p" by simp
qed

lemma od_inv_zip:
  assumes "map opt_key options = map Inr ks" and "distinct ks"
  shows "od_inv (zip ks options)"
proof -
  have "ordered_dict [] options = Inr ([] @ zip ks options)"
    using assms by (intro ordered_dict_append) auto
  then show ?thesis using od_inv_Nil ordered_dict_inv by fastforce
qed

text \<open>A key with a single override: the new entry is that override.\<close>

lemma updated_by_single:
  "filter (\<lambda>x. opt_key x = Inr k) overrides = [option] \<Longrightarrow>
     updated_by overrides k fmempty = option"
  by (simp add: updated_by_def)

text \<open>
  The result of the merge in closed form, for a base list with distinct keys: every base
  descriptor, in place, updated by the overrides of its key in their order, then one
  entry for each new key in the order of first occurrence.
\<close>

lemma merge_overrides_closed_form:
  assumes base: "map opt_key options = map Inr ks" and dist: "distinct ks"
    and ov: "map opt_key overrides = map Inr oks"
  shows "merge_overrides options overrides =
     Inr (map (\<lambda>(k, b). updated_by overrides k b) (zip ks options)
          @ map (\<lambda>k. updated_by overrides k fmempty)
              (first_occurrences (filter (\<lambda>k. k \<notin> set ks) oks)))"
proof (cases "overrides = []")
  case True
  with ov have "oks = []" by simp
  have len: "length ks = length options" using base by (metis length_map)
  have "map (\<lambda>(k, b). updated_by [] k b) (zip ks options) = map snd (zip ks options)"
    by (auto simp: updated_by_def)
  also have "\<dots> = options" using len by simp
  finally show ?thesis using True \<open>oks = []\<close> by (simp add: merge_overrides_def)
next
  case False
  let ?od = "zip ks options"
  let ?new = "first_occurrences (filter (\<lambda>k. k \<notin> set ks) oks)"
  have len: "length ks = length options" using base by (metis length_map)
  have keys0: "map fst ?od = ks" and dom0: "fst ` set ?od = set ks"
    using len by (simp_all flip: set_map)
  have od: "ordered_dict [] options = Inr ?od"
    using ordered_dict_append [OF base dist, of "[]"] by simp
  have inv: "od_inv ?od" using base dist by (rule od_inv_zip)
  obtain od' where run: "apply_overrides ?od overrides = Inr od'"
    using apply_overrides_succeeds [OF ov] by blast
  have inv': "od_inv od'" using inv run by (rule apply_overrides_inv)
  have keys: "map fst od' = ks @ ?new"
    using apply_overrides_keys [OF inv ov run] by (simp only: keys0 dom0)
  have val: "the (map_of od' k) = updated_by overrides k (stored ?od k)"
    if "k \<in> set ks \<union> set oks" for k
  proof (cases "k \<in> set oks")
    case True
    then show ?thesis using apply_overrides_lookup [OF inv ov run, of k]
      by (simp add: updated_by_def)
  next
    case False
    with that have "k \<in> set ks" by simp
    then obtain b where "map_of ?od k = Some b"
      using dom0 by (metis domD dom_map_of_conv_image_fst)
    with False filter_key_empty [OF ov False] show ?thesis
      using apply_overrides_lookup [OF inv ov run, of k]
      by (simp add: updated_by_def stored_def)
  qed
  have "map snd od' = map (\<lambda>k. the (map_of od' k)) (ks @ ?new)"
    using alist_by_keys [of od'] inv' keys by (simp add: od_inv_def)
  also have "\<dots> = map (\<lambda>k. updated_by overrides k (stored ?od k)) (ks @ ?new)"
    by (rule map_cong [OF refl]) (auto simp: set_first_occurrences intro: val)
  also have "\<dots> = map (\<lambda>k. updated_by overrides k (stored ?od k)) ks
                   @ map (\<lambda>k. updated_by overrides k (stored ?od k)) ?new"
    by simp
  also have "map (\<lambda>k. updated_by overrides k (stored ?od k)) ?new
           = map (\<lambda>k. updated_by overrides k fmempty) ?new"
  proof (rule map_cong [OF refl])
    fix k assume "k \<in> set ?new"
    then have "k \<notin> set ks" by (simp add: set_first_occurrences)
    then have "map_of ?od k = None" using dom0 by (simp add: map_of_eq_None_iff)
    then show "updated_by overrides k (stored ?od k) = updated_by overrides k fmempty"
      by (simp add: stored_def)
  qed
  also have "map (\<lambda>k. updated_by overrides k (stored ?od k)) ks
           = map (\<lambda>(k, b). updated_by overrides k b) ?od"
  proof -
    have "map (\<lambda>k. updated_by overrides k (stored ?od k)) (map fst ?od)
        = map (\<lambda>(k, b). updated_by overrides k b) ?od"
      unfolding map_map
    proof (rule map_cong [OF refl])
      fix p assume p: "p \<in> set ?od"
      have "distinct (map fst ?od)" using inv by (simp add: od_inv_def)
      with p have "map_of ?od (fst p) = Some (snd p)" by (simp add: map_of_eq_Some_iff)
      then show "((\<lambda>k. updated_by overrides k (stored ?od k)) \<circ> fst) p
          = (case p of (k, b) \<Rightarrow> updated_by overrides k b)"
        by (simp add: stored_def case_prod_beta)
    qed
    then show ?thesis by (simp only: keys0)
  qed
  finally have "map snd od' = map (\<lambda>(k, b). updated_by overrides k b) ?od
      @ map (\<lambda>k. updated_by overrides k fmempty) ?new" .
  with False od run show ?thesis by (simp add: merge_overrides_def)
qed

text \<open>For a runner that is found, the function is the merge with the runner's overrides.\<close>

lemma with_runner_overrides_found:
  "import_runner runner_slug = Some r \<Longrightarrow>
     with_runner_overrides system_options import_runner runner_slug
       = merge_overrides system_options (runner_overrides r)"
  by (simp add: with_runner_overrides_def)

subsection \<open>The claims on the merge\<close>

text \<open>
  Claim C1. When the descriptors of the base list have distinct keys \<open>ks\<close> and every
  override has a key that is one of them, the merge returns a list as long as the base
  list, with the same keys in the same order.
\<close>

theorem merge_overrides_keeps_base_keys:
  assumes "map opt_key options = map Inr ks" and "distinct ks"
    and "map opt_key overrides = map Inr oks" and "set oks \<subseteq> set ks"
  shows "\<exists>merged. merge_overrides options overrides = Inr merged
           \<and> length merged = length options
           \<and> map opt_key merged = map opt_key options"
proof -
  let ?merged = "map (\<lambda>(k, b). updated_by overrides k b) (zip ks options)"
  have len: "length ks = length options" using assms(1) by (metis length_map)
  have "filter (\<lambda>k. k \<notin> set ks) oks = []"
    using assms(4) by (auto simp: filter_empty_conv)
  then have res: "merge_overrides options overrides = Inr ?merged"
    using merge_overrides_closed_form [OF assms(1,2,3)] by simp
  have "map opt_key ?merged = map opt_key options"
  proof (rule nth_equalityI)
    show "length (map opt_key ?merged) = length (map opt_key options)" using len by simp
    fix i assume "i < length (map opt_key ?merged)"
    then have i: "i < length options" using len by simp
    have "opt_key (options ! i) = Inr (ks ! i)"
      using assms(1) i len by (metis nth_map)
    then have "opt_key (updated_by overrides (ks ! i) (options ! i)) = Inr (ks ! i)"
      by (rule opt_key_updated_by)
    with i len \<open>opt_key (options ! i) = Inr (ks ! i)\<close>
    show "map opt_key ?merged ! i = map opt_key options ! i" by simp
  qed
  with res len show ?thesis by simp
qed

theorem merge_overrides_keeps_base_keys_witness:
  "map opt_key example_options = map Inr [PStr ''a'', PStr ''b'', PStr ''c'']
   \<and> distinct [PStr ''a'', PStr ''b'', PStr ''c'']
   \<and> map opt_key [example_override_b] = map Inr [PStr ''b'']
   \<and> set [PStr ''b''] \<subseteq> set [PStr ''a'', PStr ''b'', PStr ''c'']
   \<and> (\<exists>merged. merge_overrides example_options [example_override_b] = Inr merged
         \<and> length merged = length example_options
         \<and> map opt_key merged = map opt_key example_options)"
proof -
  have k: "map opt_key example_options = map Inr [PStr ''a'', PStr ''b'', PStr ''c'']"
    by (simp add: example_options_def opt_key_def)
  have d: "distinct [PStr ''a'', PStr ''b'', PStr ''c'']" by simp
  have o: "map opt_key [example_override_b] = map Inr [PStr ''b'']"
    by (simp add: example_override_b_def opt_key_def)
  have s: "set [PStr ''b''] \<subseteq> set [PStr ''a'', PStr ''b'', PStr ''c'']" by simp
  from merge_overrides_keeps_base_keys [OF k d o s] k d o s show ?thesis by blast
qed

text \<open>
  Claim C2. When the descriptors of the base list have \<open>N\<close> distinct keys, the merge returns
  \<open>N\<close> entries plus one for each distinct override key that is not a base key; the first
  \<open>N\<close> entries carry the base keys in the base order, and the entries after them carry
  the new keys in the order in which they first occur in the override list; the entry of
  a new key is the overrides of that key, applied in their order to an empty dictionary
  (the override itself when it is the only one).
\<close>

theorem merge_overrides_appends_new_keys:
  assumes "map opt_key options = map Inr ks" and "distinct ks"
    and "map opt_key overrides = map Inr oks"
  shows "\<exists>merged. merge_overrides options overrides = Inr merged
           \<and> length merged = length options + card (set oks - set ks)
           \<and> take (length options) (map opt_key merged) = map Inr ks
           \<and> drop (length options) (map opt_key merged)
               = map Inr (first_occurrences (filter (\<lambda>k. k \<notin> set ks) oks))
           \<and> drop (length options) merged
               = map (\<lambda>k. updated_by overrides k fmempty)
                   (first_occurrences (filter (\<lambda>k. k \<notin> set ks) oks))"
proof -
  let ?new = "first_occurrences (filter (\<lambda>k. k \<notin> set ks) oks)"
  let ?old = "map (\<lambda>(k, b). updated_by overrides k b) (zip ks options)"
  let ?app = "map (\<lambda>k. updated_by overrides k fmempty) ?new"
  have len: "length ks = length options" using assms(1) by (metis length_map)
  have res: "merge_overrides options overrides = Inr (?old @ ?app)"
    using assms by (rule merge_overrides_closed_form)
  have "set (filter (\<lambda>k. k \<notin> set ks) oks) = set oks - set ks" by auto
  then have n: "length ?new = card (set oks - set ks)"
    by (simp add: length_first_occurrences)
  have old: "map opt_key ?old = map Inr ks"
  proof (rule nth_equalityI)
    show "length (map opt_key ?old) = length (map Inr ks :: (py_error + pyval) list)"
      using len by simp
    fix i assume "i < length (map opt_key ?old)"
    then have i: "i < length options" using len by simp
    have "opt_key (options ! i) = Inr (ks ! i)"
      using assms(1) i len by (metis nth_map)
    then have "opt_key (updated_by overrides (ks ! i) (options ! i)) = Inr (ks ! i)"
      by (rule opt_key_updated_by)
    with i len show "map opt_key ?old ! i = map Inr ks ! i" by simp
  qed
  have app: "map opt_key ?app = map Inr ?new"
    unfolding map_map
  proof (rule map_cong [OF refl])
    fix k assume "k \<in> set ?new"
    then have "k \<in> set oks" by (simp add: set_first_occurrences)
    then show "(opt_key \<circ> (\<lambda>k. updated_by overrides k fmempty)) k = Inr k"
      using opt_key_updated_by_new [OF assms(3)] by simp
  qed
  have "length (map opt_key ?old) = length options" using len by simp
  with old app have "take (length options) (map opt_key (?old @ ?app)) = map Inr ks"
    and "drop (length options) (map opt_key (?old @ ?app)) = map Inr ?new"
    by simp_all
  moreover have "drop (length options) (?old @ ?app) = ?app" using len by simp
  ultimately show ?thesis using res n len by simp
qed

theorem merge_overrides_appends_new_keys_witness:
  "map opt_key example_options = map Inr [PStr ''a'', PStr ''b'', PStr ''c'']
   \<and> distinct [PStr ''a'', PStr ''b'', PStr ''c'']
   \<and> map opt_key [example_override_d, example_override_b] = map Inr [PStr ''d'', PStr ''b'']
   \<and> (\<exists>merged.
         merge_overrides example_options [example_override_d, example_override_b] = Inr merged
         \<and> length merged = 4
         \<and> take 3 (map opt_key merged) = map Inr [PStr ''a'', PStr ''b'', PStr ''c'']
         \<and> drop 3 (map opt_key merged) = map Inr [PStr ''d'']
         \<and> drop 3 merged = [example_override_d])"
proof -
  have k: "map opt_key example_options = map Inr [PStr ''a'', PStr ''b'', PStr ''c'']"
    by (simp add: example_options_def opt_key_def)
  have d: "distinct [PStr ''a'', PStr ''b'', PStr ''c'']" by simp
  have o: "map opt_key [example_override_d, example_override_b] = map Inr [PStr ''d'', PStr ''b'']"
    by (simp add: example_override_b_def example_override_d_def opt_key_def)
  have len: "length example_options = 3" by (simp add: example_options_def)
  have new: "set [PStr ''d'', PStr ''b''] - set [PStr ''a'', PStr ''b'', PStr ''c''] = {PStr ''d''}"
    by auto
  have "first_occurrences (filter (\<lambda>k. k \<notin> set [PStr ''a'', PStr ''b'', PStr ''c''])
          [PStr ''d'', PStr ''b'']) = [PStr ''d'']"
    by simp
  moreover have "updated_by [example_override_d, example_override_b] (PStr ''d'') fmempty
      = example_override_d"
    by (simp add: updated_by_def example_override_b_def example_override_d_def opt_key_def)
  ultimately show ?thesis
    using merge_overrides_appends_new_keys [OF k d o] k d o
    unfolding len new by simp
qed

text \<open>
  Claim C3. For an override entry whose key is the key of the base descriptor at position
  \<open>i\<close> (the keys of each list being unique, so that it is the only override of that key),
  the merged descriptor at position \<open>i\<close> has the override's value for every field the
  override names and the base descriptor's value for every other field. On the example of
  the specification the merge of \<open>a, b, c\<close> with the overrides \<open>b, d\<close> is
  \<open>a, b\<close> with \<open>v = 99\<close>, \<open>c, d\<close>.
\<close>

theorem merge_overrides_replaces_named_fields:
  assumes "map opt_key options = map Inr ks" and "distinct ks"
    and "map opt_key overrides = map Inr oks"
    and "i < length options"
    and "filter (\<lambda>x. opt_key x = opt_key (options ! i)) overrides = [option]"
  shows "(\<exists>merged. merge_overrides options overrides = Inr merged
            \<and> i < length merged
            \<and> opt_key (merged ! i) = opt_key (options ! i)
            \<and> (\<forall>f. fmlookup (merged ! i) f =
                     (case fmlookup option f of
                        Some v \<Rightarrow> Some v
                      | None \<Rightarrow> fmlookup (options ! i) f)))
       \<and> merge_overrides example_options [example_override_b, example_override_d]
           = Inr [fmap_of_list [(''option'', PStr ''a''), (''v'', PInt 1)],
                  fmap_of_list [(''option'', PStr ''b''), (''v'', PInt 99)],
                  fmap_of_list [(''option'', PStr ''c''), (''v'', PInt 3)],
                  fmap_of_list [(''option'', PStr ''d''), (''v'', PInt 4)]]"
proof
  let ?old = "map (\<lambda>(k, b). updated_by overrides k b) (zip ks options)"
  let ?app = "map (\<lambda>k. updated_by overrides k fmempty)
                (first_occurrences (filter (\<lambda>k. k \<notin> set ks) oks))"
  have len: "length ks = length options" using assms(1) by (metis length_map)
  have res: "merge_overrides options overrides = Inr (?old @ ?app)"
    using assms(1,2,3) by (rule merge_overrides_closed_form)
  have key: "opt_key (options ! i) = Inr (ks ! i)"
    using assms(1,4) len by (metis nth_map)
  have "(?old @ ?app) ! i = ?old ! i" using assms(4) len by (simp add: nth_append)
  also have "\<dots> = updated_by overrides (ks ! i) (options ! i)"
    using assms(4) len by simp
  also have "\<dots> = options ! i ++\<^sub>f option"
    using assms(5) by (simp add: updated_by_def key)
  finally have at: "(?old @ ?app) ! i = options ! i ++\<^sub>f option" .
  have "option \<in> set (filter (\<lambda>x. opt_key x = opt_key (options ! i)) overrides)"
    unfolding assms(5) by simp
  then have "opt_key option = Inr (ks ! i)" using key by simp
  then have same: "opt_key (options ! i ++\<^sub>f option) = opt_key (options ! i)"
    using key by (simp add: opt_key_fmadd)
  have fields: "fmlookup (options ! i ++\<^sub>f option) f =
      (case fmlookup option f of Some v \<Rightarrow> Some v | None \<Rightarrow> fmlookup (options ! i) f)" for f
    by (auto simp: fmdom_notI split: option.splits)
  have "i < length (?old @ ?app)" using assms(4) len by simp
  with res at same fields
  show "\<exists>merged. merge_overrides options overrides = Inr merged
            \<and> i < length merged
            \<and> opt_key (merged ! i) = opt_key (options ! i)
            \<and> (\<forall>f. fmlookup (merged ! i) f =
                     (case fmlookup option f of
                        Some v \<Rightarrow> Some v
                      | None \<Rightarrow> fmlookup (options ! i) f))"
    by simp
next
  show "merge_overrides example_options [example_override_b, example_override_d]
           = Inr [fmap_of_list [(''option'', PStr ''a''), (''v'', PInt 1)],
                  fmap_of_list [(''option'', PStr ''b''), (''v'', PInt 99)],
                  fmap_of_list [(''option'', PStr ''c''), (''v'', PInt 3)],
                  fmap_of_list [(''option'', PStr ''d''), (''v'', PInt 4)]]"
    by code_simp
qed

theorem merge_overrides_replaces_named_fields_witness:
  "map opt_key example_options = map Inr [PStr ''a'', PStr ''b'', PStr ''c'']
   \<and> distinct [PStr ''a'', PStr ''b'', PStr ''c'']
   \<and> map opt_key [example_override_b, example_override_d] = map Inr [PStr ''b'', PStr ''d'']
   \<and> 1 < length example_options
   \<and> filter (\<lambda>x. opt_key x = opt_key (example_options ! 1))
         [example_override_b, example_override_d] = [example_override_b]
   \<and> (\<exists>merged.
         merge_overrides example_options [example_override_b, example_override_d] = Inr merged
         \<and> 1 < length merged
         \<and> fmlookup (merged ! 1) ''option'' = Some (PStr ''b'')
         \<and> fmlookup (merged ! 1) ''v'' = Some (PInt 99)
         \<and> fmlookup (merged ! 1) ''label'' = None)"
proof -
  have k: "map opt_key example_options = map Inr [PStr ''a'', PStr ''b'', PStr ''c'']"
    by (simp add: example_options_def opt_key_def)
  have d: "distinct [PStr ''a'', PStr ''b'', PStr ''c'']" by simp
  have o: "map opt_key [example_override_b, example_override_d] = map Inr [PStr ''b'', PStr ''d'']"
    by (simp add: example_override_b_def example_override_d_def opt_key_def)
  have i: "1 < length example_options" by (simp add: example_options_def)
  have f: "filter (\<lambda>x. opt_key x = opt_key (example_options ! 1))
         [example_override_b, example_override_d] = [example_override_b]"
    by (simp add: example_options_def example_override_b_def example_override_d_def opt_key_def)
  from merge_overrides_replaces_named_fields [OF k d o i f]
  obtain merged where m: "merge_overrides example_options [example_override_b, example_override_d] = Inr merged"
    and l: "1 < length merged"
    and v: "\<And>f. fmlookup (merged ! 1) f =
              (case fmlookup example_override_b f of
                 Some v \<Rightarrow> Some v
               | None \<Rightarrow> fmlookup (example_options ! 1) f)"
    by blast
  have "fmlookup (merged ! 1) ''option'' = Some (PStr ''b'')"
    and "fmlookup (merged ! 1) ''v'' = Some (PInt 99)"
    and "fmlookup (merged ! 1) ''label'' = None"
    unfolding v by (simp_all add: example_override_b_def example_options_def)
  with k d o i f m l show ?thesis by blast
qed

text \<open>
  Claim C4. For a runner whose \<^verbatim>\<open>system_options_override\<close> is empty, on the class and on
  the instance, \<^verbatim>\<open>with_runner_overrides\<close> returns the base list itself: the merge with an
  empty override list is the base list, in content and in order.
\<close>

theorem with_runner_overrides_empty:
  assumes "import_runner runner_slug = Some r"
    and "class_system_options_override r = []"
    and "instance_system_options_override r = []"
  shows "with_runner_overrides system_options import_runner runner_slug = Inr system_options
       \<and> merge_overrides system_options [] = Inr system_options"
  using assms by (simp add: with_runner_overrides_def runner_overrides_def merge_overrides_def)

theorem with_runner_overrides_empty_witness:
  "(\<lambda>slug. if slug = ''linux'' then Some \<lparr>class_system_options_override = [],
        instance_system_options_override = []\<rparr> else None) ''linux''
     = Some \<lparr>class_system_options_override = [], instance_system_options_override = []\<rparr>
   \<and> class_system_options_override
        \<lparr>class_system_options_override = [], instance_system_options_override = []\<rparr> = []
   \<and> instance_system_options_override
        \<lparr>class_system_options_override = [], instance_system_options_override = []\<rparr> = []
   \<and> with_runner_overrides example_options
        (\<lambda>slug. if slug = ''linux'' then Some \<lparr>class_system_options_override = [],
           instance_system_options_override = []\<rparr> else None) ''linux''
       = Inr example_options"
  using with_runner_overrides_empty
    [where import_runner = "\<lambda>slug. if slug = ''linux'' then Some \<lparr>class_system_options_override = [],
           instance_system_options_override = []\<rparr> else None" and runner_slug = "''linux''"
       and r = "\<lparr>class_system_options_override = [], instance_system_options_override = []\<rparr>"
       and system_options = example_options]
  by simp

text \<open>
  Claim C5. Merging the result of a merge with the same override list again gives the
  result of the first merge, for every base list and every override list (an error of the
  first merge being the outcome of both).
\<close>

theorem merge_overrides_idempotent:
  "(case merge_overrides options overrides of
      Inl e \<Rightarrow> Inl e
    | Inr merged \<Rightarrow> merge_overrides merged overrides) = merge_overrides options overrides"
proof (cases "overrides = []")
  case True
  then show ?thesis by (simp add: merge_overrides_def)
next
  case False
  show ?thesis
  proof (cases "ordered_dict [] options")
    case (Inl e)
    with False show ?thesis by (simp add: merge_overrides_def)
  next
    case (Inr od)
    then have inv: "od_inv od" using od_inv_Nil ordered_dict_inv by blast
    show ?thesis
    proof (cases "apply_overrides od overrides")
      case (Inl e)
      with False \<open>ordered_dict [] options = Inr od\<close> show ?thesis
        by (simp add: merge_overrides_def)
    next
      case (Inr od')
      have inv': "od_inv od'" using inv Inr by (rule apply_overrides_inv)
      have first: "merge_overrides options overrides = Inr (map snd od')"
        using False \<open>ordered_dict [] options = Inr od\<close> Inr by (simp add: merge_overrides_def)
      have "merge_overrides (map snd od') overrides = Inr (map snd od')"
        using False ordered_dict_values [OF inv'] apply_overrides_twice [OF inv Inr]
        by (simp add: merge_overrides_def)
      with first show ?thesis by simp
    qed
  qed
qed

theorem merge_overrides_idempotent_witness:
  "merge_overrides example_options [example_override_b, example_override_d]
     = Inr [fmap_of_list [(''option'', PStr ''a''), (''v'', PInt 1)],
            fmap_of_list [(''option'', PStr ''b''), (''v'', PInt 99)],
            fmap_of_list [(''option'', PStr ''c''), (''v'', PInt 3)],
            fmap_of_list [(''option'', PStr ''d''), (''v'', PInt 4)]]
   \<and> merge_overrides
        [fmap_of_list [(''option'', PStr ''a''), (''v'', PInt 1)],
         fmap_of_list [(''option'', PStr ''b''), (''v'', PInt 99)],
         fmap_of_list [(''option'', PStr ''c''), (''v'', PInt 3)],
         fmap_of_list [(''option'', PStr ''d''), (''v'', PInt 4)]]
        [example_override_b, example_override_d]
     = merge_overrides example_options [example_override_b, example_override_d]"
proof -
  have m: "merge_overrides example_options [example_override_b, example_override_d]
     = Inr [fmap_of_list [(''option'', PStr ''a''), (''v'', PInt 1)],
            fmap_of_list [(''option'', PStr ''b''), (''v'', PInt 99)],
            fmap_of_list [(''option'', PStr ''c''), (''v'', PInt 3)],
            fmap_of_list [(''option'', PStr ''d''), (''v'', PInt 4)]]"
    by code_simp
  with merge_overrides_idempotent
    [where options = example_options and overrides = "[example_override_b, example_override_d]"]
  show ?thesis by simp
qed

section \<open>What the merge leaves unchanged in the store\<close>

lemma unchanged_refl: "unchanged s s"
  by (simp add: unchanged_def)

lemma unchanged_trans: "unchanged s s' \<Longrightarrow> unchanged s' s'' \<Longrightarrow> unchanged s s''"
  unfolding unchanged_def
  by (metis min.absorb1 take_all_iff take_take nat_le_linear length_take min.cobounded2)

lemma unchanged_new_dict: "new_dict s d = (a, s') \<Longrightarrow> unchanged s s'"
  by (auto simp: new_dict_def unchanged_def)

lemma unchanged_new_list: "new_list s xs = (r, s') \<Longrightarrow> unchanged s s'"
  by (auto simp: new_list_def unchanged_def)


lemma unchanged_override_option_refs:
  assumes "override_option_refs s od key option = (res, s')"
  shows "unchanged s s'"
proof (cases "map_of od key")
  case None
  with assms show ?thesis by (simp add: override_option_refs_def unchanged_refl)
next
  case (Some a)
  show ?thesis
  proof (cases "dict_at s a")
    case (Inl e)
    with Some assms show ?thesis by (simp add: override_option_refs_def unchanged_refl)
  next
    case (Inr d)
    show ?thesis
    proof (cases "d = fmempty")
      case True
      with Some Inr assms show ?thesis by (simp add: override_option_refs_def unchanged_refl)
    next
      case False
      let ?copy = "length (dicts s)"
      let ?s1 = "s\<lparr>dicts := dicts s @ [d]\<rparr>"
      have target: "map_of (AList.update key ?copy od) key = Some ?copy"
        by (simp add: update_conv')
      have run: "(case dict_update ?s1 ?copy option of
                    (Inl e, s2) \<Rightarrow> (Inl e, s2)
                  | (Inr u, s2) \<Rightarrow> (Inr (AList.update key ?copy od), s2)) = (res, s')"
        using assms Some Inr False target
        by (simp add: override_option_refs_def new_dict_def)
      obtain r2 s2 where du: "dict_update ?s1 ?copy option = (r2, s2)"
        by (cases "dict_update ?s1 ?copy option")
      with run have "s' = s2" by (auto split: sum.splits)
      moreover have "unchanged s s2"
        using du by (auto simp: dict_update_def dict_at_def unchanged_def split: if_splits sum.splits)
      ultimately show ?thesis by simp
    qed
  qed
qed

lemma unchanged_apply_overrides_refs:
  "apply_overrides_refs s od overrides = (res, s') \<Longrightarrow> unchanged s s'"
proof (induction overrides arbitrary: s od)
  case Nil
  then show ?case by (simp add: unchanged_refl)
next
  case (Cons option overrides)
  show ?case
  proof (cases "key_at s option")
    case (Inl e)
    with Cons.prems show ?thesis by (simp add: unchanged_refl)
  next
    case (Inr key)
    obtain r1 s1 where step: "override_option_refs s od key option = (r1, s1)"
      by (cases "override_option_refs s od key option")
    then have u1: "unchanged s s1" by (rule unchanged_override_option_refs)
    show ?thesis
    proof (cases r1)
      case (Inl e)
      with Cons.prems Inr step have "s' = s1" by simp
      with u1 show ?thesis by simp
    next
      case (Inr od1)
      with Cons.prems \<open>key_at s option = Inr key\<close> step
      have "apply_overrides_refs s1 od1 overrides = (res, s')" by simp
      then have "unchanged s1 s'" by (rule Cons.IH)
      with u1 show ?thesis by (rule unchanged_trans)
    qed
  qed
qed

lemma unchanged_merge_overrides_refs:
  assumes "merge_overrides_refs s options overrides = (res, s')"
  shows "unchanged s s'"
proof -
  consider (same) "s' = s"
    | (run) od ovs od' s1 where "apply_overrides_refs s od ovs = (Inr od', s1)"
        and "new_list s1 (map snd od') = (length (lists s1), s')"
    | (err) od ovs e where "apply_overrides_refs s od ovs = (Inl e, s')"
    using assms
    by (auto simp: merge_overrides_refs_def new_list_def split: sum.splits if_splits prod.splits)
  then show ?thesis
  proof cases
    case same
    then show ?thesis by (simp add: unchanged_refl)
  next
    case run
    then show ?thesis
      using unchanged_apply_overrides_refs unchanged_new_list unchanged_trans by blast
  next
    case err
    then show ?thesis by (rule unchanged_apply_overrides_refs)
  qed
qed

lemma unchanged_with_runner_overrides_refs:
  "with_runner_overrides_refs s system_options import_runner runner_slug = (res, s')
     \<Longrightarrow> unchanged s s'"
  by (auto simp: with_runner_overrides_refs_def unchanged_refl
      split: option.splits sum.splits dest: unchanged_merge_overrides_refs)

lemma unchanged_nth:
  assumes "unchanged s s'"
  shows "(\<forall>r<length (lists s). r < length (lists s') \<and> lists s' ! r = lists s ! r)
       \<and> (\<forall>a<length (dicts s). a < length (dicts s') \<and> dicts s' ! a = dicts s ! a)"
proof -
  from assms have d: "take (length (dicts s)) (dicts s') = dicts s"
    and l: "take (length (lists s)) (lists s') = lists s"
    by (simp_all add: unchanged_def)
  have ld: "length (dicts s) \<le> length (dicts s')"
    using d by (metis length_take min.cobounded1 min.commute)
  have ll: "length (lists s) \<le> length (lists s')"
    using l by (metis length_take min.cobounded1 min.commute)
  have "dicts s' ! a = dicts s ! a" if "a < length (dicts s)" for a
    using that d by (metis nth_take)
  moreover have "lists s' ! r = lists s ! r" if "r < length (lists s)" for r
    using that l by (metis nth_take)
  ultimately show ?thesis using ld ll by auto
qed

text \<open>
  Claim C10. Whatever the store, the base list, the runners and the outcome of the call,
  every list object and every dictionary object that existed before the call is the same
  after it: \<^verbatim>\<open>with_runner_overrides\<close> changes only the copies it has made itself. So the
  list \<^verbatim>\<open>system_options\<close> and the descriptors in it are as they were (and so are the
  runner's override list and its descriptors).
\<close>

theorem with_runner_overrides_refs_frame:
  assumes "with_runner_overrides_refs s system_options import_runner runner_slug = (res, s')"
  shows "(\<forall>r<length (lists s). list_at s' r = list_at s r)
       \<and> (\<forall>a<length (dicts s). dict_at s' a = dict_at s a)"
proof -
  have "unchanged s s'" using assms by (rule unchanged_with_runner_overrides_refs)
  from unchanged_nth [OF this] show ?thesis
    by (simp add: list_at_def dict_at_def)
qed

theorem with_runner_overrides_refs_frame_witness:
  "with_runner_overrides_refs example_store 0 example_import_runner ''wine''
     = (Inr 3,
        \<lparr>dicts = example_options @ [example_override_b, example_override_d]
                  @ [fmap_of_list [(''option'', PStr ''b''), (''v'', PInt 99)]],
         lists = [[0, 1, 2], [3, 4], [], [0, 5, 2, 4]]\<rparr>)
   \<and> list_at (snd (with_runner_overrides_refs example_store 0 example_import_runner ''wine'')) 0
       = list_at example_store 0
   \<and> list_at example_store 0 = Inr [0, 1, 2]
   \<and> dict_at (snd (with_runner_overrides_refs example_store 0 example_import_runner ''wine'')) 1
       = dict_at example_store 1
   \<and> dict_at example_store 1 = Inr (fmap_of_list [(''option'', PStr ''b''), (''v'', PInt 2)])"
proof -
  have run: "with_runner_overrides_refs example_store 0 example_import_runner ''wine''
     = (Inr 3,
        \<lparr>dicts = example_options @ [example_override_b, example_override_d]
                  @ [fmap_of_list [(''option'', PStr ''b''), (''v'', PInt 99)]],
         lists = [[0, 1, 2], [3, 4], [], [0, 5, 2, 4]]\<rparr>)"
    by code_simp
  have l: "(0::nat) < length (lists example_store)" and d: "(1::nat) < length (dicts example_store)"
    by (simp_all add: example_store_def example_options_def)
  have v: "list_at example_store 0 = Inr [0, 1, 2]"
    "dict_at example_store 1 = Inr (fmap_of_list [(''option'', PStr ''b''), (''v'', PInt 2)])"
    by (simp_all add: list_at_def dict_at_def example_store_def example_options_def)
  from with_runner_overrides_refs_frame [OF run] l d
  have "list_at (snd (with_runner_overrides_refs example_store 0 example_import_runner ''wine'')) 0
          = list_at example_store 0"
    and "dict_at (snd (with_runner_overrides_refs example_store 0 example_import_runner ''wine'')) 1
          = dict_at example_store 1"
    unfolding run by simp_all
  with run v show ?thesis by simp
qed

subsection \<open>The store and the values\<close>

text \<open>
  The merge on the store computes the merge on the values: when the base list and the
  override list refer to the descriptors \<open>base\<close> and \<open>ov\<close>, the list returned refers to
  the descriptors of \<open>merge_overrides base ov\<close>, and an exception of the one is the
  exception of the other. Sharing of objects between the lists does not matter.
\<close>

lemma holds_pair: "holds s (k, a) (k', d) = (k = k' \<and> dict_at s a = Inr d)"
  by (simp add: holds_def)

lemma dict_at_unchanged: "unchanged s s' \<Longrightarrow> dict_at s a = Inr d \<Longrightarrow> dict_at s' a = Inr d"
  using unchanged_nth [of s s'] by (auto simp: dict_at_def split: if_splits)

lemma holds_unchanged: "unchanged s s' \<Longrightarrow> holds s p q \<Longrightarrow> holds s' p q"
  by (auto simp: holds_def dest: dict_at_unchanged)

lemma list_all2_holds_unchanged:
  "unchanged s s' \<Longrightarrow> list_all2 (holds s) xs ys \<Longrightarrow> list_all2 (holds s') xs ys"
  by (erule list_all2_mono) (rule holds_unchanged)

lemma map_dict_at_unchanged:
  "unchanged s s' \<Longrightarrow> map (dict_at s) refs = map Inr ds \<Longrightarrow> map (dict_at s') refs = map Inr ds"
proof (induction refs arbitrary: ds)
  case Nil
  then show ?case by simp
next
  case (Cons a refs)
  then obtain d ds' where "ds = d # ds'" by (cases ds) auto
  with Cons show ?case by (auto dest: dict_at_unchanged)
qed

lemma list_all2_update:
  assumes "list_all2 (holds s) xs ys" and "dict_at s a = Inr d"
  shows "list_all2 (holds s) (AList.update k a xs) (AList.update k d ys)"
  using assms(1)
proof (induction rule: list_all2_induct)
  case Nil
  with assms(2) show ?case by (simp add: holds_pair)
next
  case (Cons x xs y ys)
  then show ?case using assms(2) by (cases x; cases y) (auto simp: holds_pair)
qed

lemma list_all2_map_of:
  assumes "list_all2 (holds s) xs ys"
  shows "rel_option (\<lambda>a d. dict_at s a = Inr d) (map_of xs k) (map_of ys k)"
  using assms
proof (induction rule: list_all2_induct)
  case Nil
  then show ?case by simp
next
  case (Cons x xs y ys)
  then show ?case by (cases x; cases y) (auto simp: holds_pair)
qed

lemma key_at_dict:
  "dict_at s a = Inr d \<Longrightarrow>
     key_at s a = (case opt_key d of Inl e \<Rightarrow> Inl (Raise e) | Inr k \<Rightarrow> Inr k)"
  by (simp add: key_at_def)

lemma ordered_dict_refs_values:
  assumes "list_all2 (holds s) acc_refs acc" and "map (dict_at s) refs = map Inr ds"
  shows "rel_sum (\<lambda>e e'. e = Raise e') (list_all2 (holds s))
           (ordered_dict_refs s acc_refs refs) (ordered_dict acc ds)"
  using assms
proof (induction refs arbitrary: acc_refs acc ds)
  case Nil
  then show ?case by simp
next
  case (Cons a refs)
  then obtain d ds' where ds: "ds = d # ds'" and a: "dict_at s a = Inr d"
    and rest: "map (dict_at s) refs = map Inr ds'"
    by (cases ds) auto
  show ?case
  proof (cases "opt_key d")
    case (Inl e)
    then show ?thesis by (simp add: ds key_at_dict [OF a])
  next
    case (Inr k)
    have "list_all2 (holds s) (AList.update k a acc_refs) (AList.update k d acc)"
      using Cons.prems(1) a by (rule list_all2_update)
    from Cons.IH [OF this rest] Inr show ?thesis by (simp add: ds key_at_dict [OF a])
  qed
qed

lemma override_option_refs_values:
  assumes rel: "list_all2 (holds s) od_refs od" and opt: "dict_at s option = Inr d"
  shows "\<exists>od_refs' s'. override_option_refs s od_refs key option = (Inr od_refs', s')
           \<and> unchanged s s'
           \<and> list_all2 (holds s') od_refs' (override_option od key d)"
proof -
  note m = list_all2_map_of [OF rel, of key]
  show ?thesis
  proof (cases "map_of od_refs key")
    case None
    with m have none: "map_of od key = None" by simp
    have "list_all2 (holds s) (AList.update key option od_refs) (AList.update key d od)"
      using rel opt by (rule list_all2_update)
    with None none show ?thesis
      by (simp add: override_option_refs_def override_option_def get_truthy_def unchanged_refl)
  next
    case (Some a)
    with m obtain b where some: "map_of od key = Some b" and a: "dict_at s a = Inr b"
      by (cases "map_of od key") auto
    show ?thesis
    proof (cases "b = fmempty")
      case True
      have "list_all2 (holds s) (AList.update key option od_refs) (AList.update key d od)"
        using rel opt by (rule list_all2_update)
      with Some some a True show ?thesis
        by (simp add: override_option_refs_def override_option_def get_truthy_def unchanged_refl)
    next
      case False
      let ?copy = "length (dicts s)"
      let ?s1 = "s\<lparr>dicts := dicts s @ [b]\<rparr>"
      let ?s2 = "s\<lparr>dicts := dicts s @ [b ++\<^sub>f d]\<rparr>"
      have opt1: "dict_at ?s1 option = Inr d"
        using opt by (auto simp: dict_at_def nth_append split: if_splits)
      have du: "dict_update ?s1 ?copy option = (Inr (), ?s2)"
        using opt1 by (simp add: dict_update_def dict_at_def)
      have run: "override_option_refs s od_refs key option
          = (Inr (AList.update key ?copy od_refs), ?s2)"
        using Some a False du
        by (simp add: override_option_refs_def new_dict_def update_conv')
      have u: "unchanged s ?s2" by (simp add: unchanged_def)
      have "list_all2 (holds ?s2) od_refs od"
        using u rel by (rule list_all2_holds_unchanged)
      moreover have "dict_at ?s2 ?copy = Inr (b ++\<^sub>f d)" by (simp add: dict_at_def)
      ultimately have "list_all2 (holds ?s2) (AList.update key ?copy od_refs)
          (AList.update key (b ++\<^sub>f d) od)"
        by (rule list_all2_update)
      moreover have "override_option od key d = AList.update key (b ++\<^sub>f d) od"
        using some False by (simp add: override_option_def get_truthy_def)
      ultimately show ?thesis using run u by simp
    qed
  qed
qed

lemma apply_overrides_refs_values:
  assumes "list_all2 (holds s) od_refs od" and "map (dict_at s) refs = map Inr ds"
  shows "\<exists>res s'. apply_overrides_refs s od_refs refs = (res, s')
           \<and> rel_sum (\<lambda>e e'. e = Raise e') (list_all2 (holds s')) res (apply_overrides od ds)"
  using assms
proof (induction refs arbitrary: s od_refs od ds)
  case Nil
  then show ?case by simp
next
  case (Cons a refs)
  then obtain d ds' where ds: "ds = d # ds'" and a: "dict_at s a = Inr d"
    and rest: "map (dict_at s) refs = map Inr ds'"
    by (cases ds) auto
  show ?case
  proof (cases "opt_key d")
    case (Inl e)
    then show ?thesis by (simp add: ds key_at_dict [OF a])
  next
    case (Inr k)
    from override_option_refs_values [OF Cons.prems(1) a, of k]
    obtain od_refs' s1 where step: "override_option_refs s od_refs k a = (Inr od_refs', s1)"
      and u: "unchanged s s1"
      and rel1: "list_all2 (holds s1) od_refs' (override_option od k d)"
      by blast
    have rest1: "map (dict_at s1) refs = map Inr ds'"
      using u rest by (rule map_dict_at_unchanged)
    from Cons.IH [OF rel1 rest1] Inr step show ?thesis
      by (simp add: ds key_at_dict [OF a])
  qed
qed

lemma list_all2_holds_values:
  "list_all2 (holds s) od_refs od \<Longrightarrow> map (dict_at s) (map snd od_refs) = map Inr (map snd od)"
  by (induction rule: list_all2_induct) (auto simp: holds_def)

lemma merge_overrides_refs_values:
  assumes "list_at s options = Inr opts" and "map (dict_at s) opts = map Inr base"
    and "list_at s overrides = Inr ovs" and "map (dict_at s) ovs = map Inr ov"
  shows "\<exists>res s'. merge_overrides_refs s options overrides = (res, s')
           \<and> rel_sum (\<lambda>e e'. e = Raise e')
                (\<lambda>r merged. \<exists>refs. list_at s' r = Inr refs \<and> map (dict_at s') refs = map Inr merged)
                res (merge_overrides base ov)"
proof (cases "ovs = []")
  case True
  with assms have "ov = []" by simp
  with True assms show ?thesis by (simp add: merge_overrides_refs_def merge_overrides_def)
next
  case False
  with assms(4) have ov: "ov \<noteq> []" by auto
  have od: "rel_sum (\<lambda>e e'. e = Raise e') (list_all2 (holds s))
      (ordered_dict_refs s [] opts) (ordered_dict [] base)"
    using assms(2) by (intro ordered_dict_refs_values) simp
  show ?thesis
  proof (cases "ordered_dict_refs s [] opts")
    case (Inl e)
    with od False ov assms show ?thesis
      by (cases "ordered_dict [] base") (auto simp: merge_overrides_refs_def merge_overrides_def)
  next
    case (Inr od_refs)
    with od obtain od0 where od0: "ordered_dict [] base = Inr od0"
      and rel: "list_all2 (holds s) od_refs od0"
      by (cases "ordered_dict [] base") auto
    from apply_overrides_refs_values [OF rel assms(4)]
    obtain res s1 where run: "apply_overrides_refs s od_refs ovs = (res, s1)"
      and r: "rel_sum (\<lambda>e e'. e = Raise e') (list_all2 (holds s1)) res (apply_overrides od0 ov)"
      by blast
    show ?thesis
    proof (cases res)
      case (Inl e)
      with r False ov assms Inr od0 run show ?thesis
        by (cases "apply_overrides od0 ov") (auto simp: merge_overrides_refs_def merge_overrides_def)
    next
      case (Inr od_refs')
      with r obtain od' where od': "apply_overrides od0 ov = Inr od'"
        and rel': "list_all2 (holds s1) od_refs' od'"
        by (cases "apply_overrides od0 ov") auto
      let ?s2 = "s1\<lparr>lists := lists s1 @ [map snd od_refs']\<rparr>"
      have "map (dict_at s1) (map snd od_refs') = map Inr (map snd od')"
        using rel' by (rule list_all2_holds_values)
      moreover have "dict_at ?s2 = dict_at s1" by (rule ext) (simp add: dict_at_def)
      ultimately have vals: "map (dict_at ?s2) (map snd od_refs') = map Inr (map snd od')"
        by simp
      have at: "list_at ?s2 (length (lists s1)) = Inr (map snd od_refs')"
        by (simp add: list_at_def)
      have "merge_overrides_refs s options overrides = (Inr (length (lists s1)), ?s2)"
        using False assms(1,3) \<open>ordered_dict_refs s [] opts = Inr od_refs\<close> run Inr
        by (simp add: merge_overrides_refs_def new_list_def)
      moreover have "merge_overrides base ov = Inr (map snd od')"
        using ov od0 od' by (simp add: merge_overrides_def)
      ultimately show ?thesis using at vals by auto
    qed
  qed
qed

section \<open>Error paths of the installer window\<close>

lemma fmdom_fix_script:
  "fmdom (fix_script script) = finsert ''notes'' (finsert ''description'' (fmdom script))"
  by (simp add: fix_script_def)

lemma first_missing_field_fix_script:
  "first_missing_field (fix_script script) = first_missing_field script"
  by (simp add: first_missing_field_def fmdom_fix_script)

lemma first_missing_field_Some:
  "first_missing_field script = Some item \<Longrightarrow>
     item \<in> set [''name'', ''runner'', ''version''] \<and> item |\<notin>| fmdom script"
  unfolding first_missing_field_def by (auto split: if_splits)

lemma first_missing_field_None:
  "first_missing_field script = None \<longleftrightarrow>
     (\<forall>item\<in>set [''name'', ''runner'', ''version'']. item |\<in>| fmdom script)"
  unfolding first_missing_field_def by (auto simp: find_None_iff)

lemma validate_each_raises:
  assumes "find (\<lambda>s. first_missing_field s \<noteq> None) scripts = Some script"
    and "first_missing_field script = Some item"
  shows "fst (validate_each scripts) = Some (ScriptingError (missing_field_message item))"
  using assms
proof (induction scripts)
  case Nil
  then show ?case by simp
next
  case (Cons s scripts)
  show ?case
  proof (cases "first_missing_field s")
    case None
    with Cons show ?thesis
      by (auto simp: first_missing_field_fix_script split: prod.splits)
  next
    case (Some item')
    with Cons.prems show ?thesis
      by (simp add: first_missing_field_fix_script)
  qed
qed

lemma validate_each_passes:
  "find (\<lambda>s. first_missing_field s \<noteq> None) scripts = None \<Longrightarrow>
     validate_each scripts = (None, map fix_script scripts)"
  by (induction scripts) (auto simp: first_missing_field_fix_script split: if_splits)

text \<open>
  Claim C8. When a script of the list lacks one of the fields \<^verbatim>\<open>name\<close>, \<^verbatim>\<open>runner\<close>,
  \<^verbatim>\<open>version\<close>, validation raises a \<^verbatim>\<open>ScriptingError\<close> whose message names a missing
  field: the first missing one of the first script that lacks any. \<^verbatim>\<open>choose_installer\<close>
  raises it before it builds the installer picker, and the constructor of the window
  raises it too, so that no window is made.
\<close>

theorem validate_scripts_missing_field:
  assumes "script \<in> set scripts"
    and "item \<in> set [''name'', ''runner'', ''version'']"
    and "item |\<notin>| fmdom script"
    and "installers w = scripts"
  shows "\<exists>script' item'.
           find (\<lambda>s. first_missing_field s \<noteq> None) scripts = Some script'
         \<and> first_missing_field script' = Some item'
         \<and> script' \<in> set scripts
         \<and> item' \<in> set [''name'', ''runner'', ''version'']
         \<and> item' |\<notin>| fmdom script'
         \<and> fst (validate_scripts scripts) = Some (ScriptingError (missing_field_message item'))
         \<and> fst (choose_installer gtk_safe w) = Some (ScriptingError (missing_field_message item'))
         \<and> installer_picker (snd (choose_installer gtk_safe w)) = installer_picker w
         \<and> new_installer_window gtk_safe scripts = Inl (ScriptingError (missing_field_message item'))"
proof -
  have "first_missing_field script \<noteq> None"
    using assms(2,3) first_missing_field_None [of script] by blast
  with assms(1) obtain script' where f: "find (\<lambda>s. first_missing_field s \<noteq> None) scripts = Some script'"
    by (cases "find (\<lambda>s. first_missing_field s \<noteq> None) scripts") (auto simp: find_None_iff)
  then have in_set: "script' \<in> set scripts" and "first_missing_field script' \<noteq> None"
    by (auto simp: find_Some_iff)
  then obtain item' where m: "first_missing_field script' = Some item'" by auto
  have ne: "scripts \<noteq> []" using assms(1) by auto
  have v: "fst (validate_scripts scripts) = Some (ScriptingError (missing_field_message item'))"
    using validate_each_raises [OF f m] ne by (simp add: validate_scripts_def)
  obtain scripts' where v': "validate_scripts scripts
      = (Some (ScriptingError (missing_field_message item')), scripts')"
    using v by (cases "validate_scripts scripts") simp
  have c: "choose_installer gtk_safe w'
      = (Some (ScriptingError (missing_field_message item')), w'\<lparr>installers := scripts'\<rparr>)"
    if "installers w' = scripts" for w' :: installer_window
    using v' that by (simp add: choose_installer_def)
  have n: "new_installer_window gtk_safe scripts = Inl (ScriptingError (missing_field_message item'))"
    by (simp add: new_installer_window_def c)
  from f m in_set first_missing_field_Some [OF m] v c [OF assms(4)] n
  show ?thesis by simp
qed


theorem validate_scripts_missing_field_witness:
  "example_scripts ! 1 \<in> set example_scripts
   \<and> ''runner'' \<in> set [''name'', ''runner'', ''version'']
   \<and> ''runner'' |\<notin>| fmdom (example_scripts ! 1)
   \<and> installers example_window = example_scripts
   \<and> fst (validate_scripts example_scripts)
       = Some (ScriptingError (missing_field_message ''runner''))
   \<and> missing_field_message ''runner''
       = ''Missing field '' @ [CHR 0x22] @ ''runner'' @ [CHR 0x22] @ '' in install script''
   \<and> fst (choose_installer example_gtk_safe example_window)
       = Some (ScriptingError (missing_field_message ''runner''))
   \<and> installer_picker (snd (choose_installer example_gtk_safe example_window)) = None
   \<and> new_installer_window example_gtk_safe example_scripts
       = Inl (ScriptingError (missing_field_message ''runner''))"
proof -
  have a: "example_scripts ! 1 \<in> set example_scripts" by (simp add: example_scripts_def)
  have b: "''runner'' \<in> set [''name'', ''runner'', ''version'']" by simp
  have c: "''runner'' |\<notin>| fmdom (example_scripts ! 1)" by (simp add: example_scripts_def)
  have d: "installers example_window = example_scripts" by (simp add: example_window_def)
  have p: "installer_picker example_window = None" by (simp add: example_window_def)
  have f: "find (\<lambda>s. first_missing_field s \<noteq> None) example_scripts = Some (example_scripts ! 1)"
    by (simp add: example_scripts_def first_missing_field_def)
  have m: "first_missing_field (example_scripts ! 1) = Some ''runner''"
    by (simp add: example_scripts_def first_missing_field_def)
  from validate_scripts_missing_field [OF a b c d, of example_gtk_safe]
  obtain script' item' where
      "find (\<lambda>s. first_missing_field s \<noteq> None) example_scripts = Some script'"
    and "first_missing_field script' = Some item'"
    and r: "fst (validate_scripts example_scripts) = Some (ScriptingError (missing_field_message item'))"
      "fst (choose_installer example_gtk_safe example_window)
         = Some (ScriptingError (missing_field_message item'))"
      "installer_picker (snd (choose_installer example_gtk_safe example_window))
         = installer_picker example_window"
      "new_installer_window example_gtk_safe example_scripts
         = Inl (ScriptingError (missing_field_message item'))"
    by blast
  with f m have "item' = ''runner''" by simp
  with r a b c d p show ?thesis by (simp add: missing_field_message_def)
qed

text \<open>
  Claim C9. When \<^verbatim>\<open>file_box.start_all()\<close> raises a \<^verbatim>\<open>PermissionError\<close>, the handler
  raises a \<^verbatim>\<open>ScriptingError\<close> whose message ends with the text of the cause, the continue
  button is sensitive again, and the continue handler is still connected.
\<close>

theorem on_files_confirmed_permission_error:
  "fst (on_files_confirmed w (Some (PermissionError ex)))
     = Some (ScriptingError (''Unable to get files: '' @ ex))
   \<and> continue_sensitive (snd (on_files_confirmed w (Some (PermissionError ex))))
   \<and> continue_connected (snd (on_files_confirmed w (Some (PermissionError ex))))
       = continue_connected w
   \<and> continue_handler (snd (on_files_confirmed w (Some (PermissionError ex))))
       = continue_handler w"
  by (simp add: on_files_confirmed_def)

theorem on_files_confirmed_permission_error_witness:
  "on_files_confirmed example_window (Some (PermissionError ''[Errno 13] Permission denied''))
     = (Some (ScriptingError ''Unable to get files: [Errno 13] Permission denied''),
        example_window\<lparr>status_label := []\<rparr>)
   \<and> continue_sensitive
        (snd (on_files_confirmed example_window (Some (PermissionError ''[Errno 13] Permission denied''))))
   \<and> continue_connected
        (snd (on_files_confirmed example_window (Some (PermissionError ''[Errno 13] Permission denied''))))
       = [7]
   \<and> on_files_confirmed example_window None
       = (None, example_window\<lparr>status_label := [], continue_sensitive := False,
                                 continue_connected := []\<rparr>)"
proof -
  have "continue_connected example_window = [7]" by (simp add: example_window_def)
  moreover have "on_files_confirmed example_window (Some (PermissionError ''[Errno 13] Permission denied''))
     = (Some (ScriptingError ''Unable to get files: [Errno 13] Permission denied''),
        example_window\<lparr>status_label := []\<rparr>)"
    by (simp add: on_files_confirmed_def example_window_def)
  moreover have "on_files_confirmed example_window None
       = (None, example_window\<lparr>status_label := [], continue_sensitive := False,
                                 continue_connected := []\<rparr>)"
    by (simp add: on_files_confirmed_def example_window_def)
  ultimately show ?thesis
    using on_files_confirmed_permission_error
      [where w = example_window and ex = "''[Errno 13] Permission denied''"]
    by simp
qed

section \<open>Order and default entries of the choice lists\<close>

text \<open>
  \<^verbatim>\<open>get_vk_icd_choices\<close> raises when the output of the vendor command does not decode.
  Otherwise its list is one leading entry, then the loaders found, each kind under its
  label and in the order of the source.
\<close>

lemma get_vk_icd_choices_closed_form:
  "get_vk_icd_choices glob use_dri_prime communicate =
     (if well_formed_utf8 (map of_char (vendor_output glob use_dri_prime communicate))
      then Inr
        ((if str_in ''Intel'' (vendor_output glob use_dri_prime communicate)
          then (''Auto: Intel Open Source (MESA: ANV)'', str_join '':'' (intel (find_loaders glob)))
          else if str_in ''AMD'' (vendor_output glob use_dri_prime communicate)
          then (''Auto: AMD RADV Open Source (MESA: RADV)'', str_join '':'' (amdradv (find_loaders glob)))
          else if str_in ''NVIDIA'' (vendor_output glob use_dri_prime communicate)
          then (''Auto: Nvidia Proprietary'', str_join '':'' (nvidia (find_loaders glob)))
          else (''Auto: WARNING -- No Vulkan Loader detected!'', []))
         # filter (\<lambda>(label, value). value \<noteq> [])
             [(''Intel Open Source (MESA: ANV)'', str_join '':'' (intel (find_loaders glob))),
              (''AMD RADV Open Source (MESA: RADV)'', str_join '':'' (amdradv (find_loaders glob))),
              (''Nvidia Proprietary'', str_join '':'' (nvidia (find_loaders glob))),
              (if str_join '':'' (amdvlkpro (find_loaders glob)) = []
               then ''AMDVLK/AMDGPU-PRO Proprietary'' else ''AMDVLK Open source'',
               str_join '':'' (amdvlk (find_loaders glob))),
              (''AMDGPU-PRO Proprietary'', str_join '':'' (amdvlkpro (find_loaders glob)))])
      else Inl UnicodeDecodeError)"
  unfolding get_vk_icd_choices_def vendor_output_def decode_utf8_def Let_def
  by simp

lemma get_vk_icd_choices_decodes:
  assumes "well_formed_utf8 (map of_char (vendor_output glob use_dri_prime communicate))"
  shows "\<exists>first found.
           get_vk_icd_choices glob use_dri_prime communicate = Inr (first # found)
         \<and> first =
             (if str_in ''Intel'' (vendor_output glob use_dri_prime communicate)
              then (''Auto: Intel Open Source (MESA: ANV)'', str_join '':'' (intel (find_loaders glob)))
              else if str_in ''AMD'' (vendor_output glob use_dri_prime communicate)
              then (''Auto: AMD RADV Open Source (MESA: RADV)'', str_join '':'' (amdradv (find_loaders glob)))
              else if str_in ''NVIDIA'' (vendor_output glob use_dri_prime communicate)
              then (''Auto: Nvidia Proprietary'', str_join '':'' (nvidia (find_loaders glob)))
              else (''Auto: WARNING -- No Vulkan Loader detected!'', []))
         \<and> fst ` set found
             \<subseteq> {''Intel Open Source (MESA: ANV)'', ''AMD RADV Open Source (MESA: RADV)'',
                 ''Nvidia Proprietary'', ''AMDVLK/AMDGPU-PRO Proprietary'',
                 ''AMDVLK Open source'', ''AMDGPU-PRO Proprietary''}
         \<and> (find_loaders glob
               = \<lparr>intel = [], amdradv = [], nvidia = [], amdvlk = [], amdvlkpro = []\<rparr>
              \<longrightarrow> found = [])"
  using assms by (subst get_vk_icd_choices_closed_form) auto


lemma get_optirun_choices_closed_form:
  "get_optirun_choices find_executable =
     (''Off'', ''off'')
     # filter (\<lambda>(label, value). found (find_executable value))
         [(''primusrun'', ''primusrun''), (''optirun/virtualgl'', ''optirun''),
          (''primus vk'', ''pvkrun'')]"
  by (simp add: get_optirun_choices_def Let_def)

lemma find_loaders_none:
  assumes "\<forall>data_dir\<in>set VULKAN_DATA_DIRS. glob (os_path_join data_dir [''icd.d'', ''*.json'']) = []"
  shows "find_loaders glob = \<lparr>intel = [], amdradv = [], nvidia = [], amdvlk = [], amdvlkpro = []\<rparr>"
proof -
  have "fold (\<lambda>data_dir l. fold add_loader (glob (os_path_join data_dir [''icd.d'', ''*.json''])) l) dirs l0 = l0"
    if "\<forall>data_dir\<in>set dirs. glob (os_path_join data_dir [''icd.d'', ''*.json'']) = []"
    for dirs and l0 :: icd_loaders
    using that by (induction dirs arbitrary: l0) simp_all
  from this [OF assms] show ?thesis by (simp add: find_loaders_def)
qed

text \<open>
  Claim C7, as amended. Every list starts with its default entries and goes on with what
  was discovered, in a fixed order. The default entry is \<^verbatim>\<open>Keep current\<close> for the
  resolutions, \<^verbatim>\<open>Off\<close> then \<^verbatim>\<open>Primary\<close> for the outputs, \<^verbatim>\<open>Off\<close> for Optimus. For the
  Vulkan loaders, whenever a list is returned (the output of the vendor command decodes),
  it is a single entry: the \<^verbatim>\<open>Auto\<close> entry of the vendor that \<^verbatim>\<open>glxinfo\<close> names (Intel,
  AMD and NVIDIA being looked for in this order), and the warning entry only when it
  names none.
\<close>

theorem choice_lists_order:
  "get_resolution_choices resolutions = (''Keep current'', ''off'') # zip resolutions resolutions
   \<and> get_output_choices displays
       = (''Off'', ''off'') # (''Primary'', ''primary'') # zip displays displays
   \<and> get_optirun_choices find_executable
       = (''Off'', ''off'')
         # filter (\<lambda>(label, value). found (find_executable value))
             [(''primusrun'', ''primusrun''), (''optirun/virtualgl'', ''optirun''),
              (''primus vk'', ''pvkrun'')]
   \<and> get_vk_icd_choices glob use_dri_prime communicate
       = (if well_formed_utf8 (map of_char (vendor_output glob use_dri_prime communicate))
          then Inr
            ((if str_in ''Intel'' (vendor_output glob use_dri_prime communicate)
              then (''Auto: Intel Open Source (MESA: ANV)'', str_join '':'' (intel (find_loaders glob)))
              else if str_in ''AMD'' (vendor_output glob use_dri_prime communicate)
              then (''Auto: AMD RADV Open Source (MESA: RADV)'', str_join '':'' (amdradv (find_loaders glob)))
              else if str_in ''NVIDIA'' (vendor_output glob use_dri_prime communicate)
              then (''Auto: Nvidia Proprietary'', str_join '':'' (nvidia (find_loaders glob)))
              else (''Auto: WARNING -- No Vulkan Loader detected!'', []))
             # filter (\<lambda>(label, value). value \<noteq> [])
                 [(''Intel Open Source (MESA: ANV)'', str_join '':'' (intel (find_loaders glob))),
                  (''AMD RADV Open Source (MESA: RADV)'', str_join '':'' (amdradv (find_loaders glob))),
                  (''Nvidia Proprietary'', str_join '':'' (nvidia (find_loaders glob))),
                  (if str_join '':'' (amdvlkpro (find_loaders glob)) = []
                   then ''AMDVLK/AMDGPU-PRO Proprietary'' else ''AMDVLK Open source'',
                   str_join '':'' (amdvlk (find_loaders glob))),
                  (''AMDGPU-PRO Proprietary'', str_join '':'' (amdvlkpro (find_loaders glob)))])
          else Inl UnicodeDecodeError)"
proof (intro conjI)
  show "get_resolution_choices resolutions = (''Keep current'', ''off'') # zip resolutions resolutions"
    by (simp add: get_resolution_choices_def list_insert_def)
  show "get_output_choices displays
       = (''Off'', ''off'') # (''Primary'', ''primary'') # zip displays displays"
    by (simp add: get_output_choices_def list_insert_def)
qed (rule get_optirun_choices_closed_form, rule get_vk_icd_choices_closed_form)

theorem choice_lists_order_witness:
  "get_resolution_choices [''1920x1080'', ''1280x720'']
     = [(''Keep current'', ''off''), (''1920x1080'', ''1920x1080''), (''1280x720'', ''1280x720'')]
   \<and> get_output_choices [''HDMI-1'']
     = [(''Off'', ''off''), (''Primary'', ''primary''), (''HDMI-1'', ''HDMI-1'')]
   \<and> get_optirun_choices no_executable = [(''Off'', ''off'')]
   \<and> well_formed_utf8 (map of_char (vendor_output intel_vulkan_dir False no_glxinfo))
   \<and> get_vk_icd_choices intel_vulkan_dir False no_glxinfo
     = Inr [(''Auto: WARNING -- No Vulkan Loader detected!'', []),
            (''Intel Open Source (MESA: ANV)'', ''/usr/share/vulkan/icd.d/intel_icd.x86_64.json'')]"
proof -
  have l: "find_loaders intel_vulkan_dir
      = \<lparr>intel = [''/usr/share/vulkan/icd.d/intel_icd.x86_64.json''], amdradv = [],
         nvidia = [], amdvlk = [], amdvlkpro = []\<rparr>"
    by code_simp
  have g: "vendor_output intel_vulkan_dir False no_glxinfo
      = ''/bin/sh: 1: glxinfo: not found'' @ [CHR 0x0A]"
    by (simp add: vendor_output_def no_glxinfo_def)
  have w: "well_formed_utf8 (map of_char (''/bin/sh: 1: glxinfo: not found'' @ [CHR 0x0A]))"
    by code_simp
  have n: "\<not> str_in ''Intel'' (''/bin/sh: 1: glxinfo: not found'' @ [CHR 0x0A])"
    "\<not> str_in ''AMD'' (''/bin/sh: 1: glxinfo: not found'' @ [CHR 0x0A])"
    "\<not> str_in ''NVIDIA'' (''/bin/sh: 1: glxinfo: not found'' @ [CHR 0x0A])"
    by code_simp+
  from choice_lists_order
    [where resolutions = "[''1920x1080'', ''1280x720'']" and displays = "[''HDMI-1'']"
       and find_executable = no_executable and glob = intel_vulkan_dir
       and use_dri_prime = False and communicate = no_glxinfo]
  show ?thesis
    unfolding l g using w by (simp add: n no_executable_def found_def)
qed

text \<open>
  Claim C7 as it is written fails: with an Intel loader installed and an Intel GPU
  reported, the list starts with the \<^verbatim>\<open>Auto\<close> entry of Intel, not with the warning entry
  followed by it.
\<close>

theorem vk_auto_entry_first_counterexample:
  "get_vk_icd_choices intel_vulkan_dir False intel_glxinfo
     = Inr [(''Auto: Intel Open Source (MESA: ANV)'', ''/usr/share/vulkan/icd.d/intel_icd.x86_64.json''),
            (''Intel Open Source (MESA: ANV)'', ''/usr/share/vulkan/icd.d/intel_icd.x86_64.json'')]
   \<and> take 2 (projr (get_vk_icd_choices intel_vulkan_dir False intel_glxinfo))
       \<noteq> [(''Auto: WARNING -- No Vulkan Loader detected!'', []),
           (''Auto: Intel Open Source (MESA: ANV)'', ''/usr/share/vulkan/icd.d/intel_icd.x86_64.json'')]"
proof -
  have "get_vk_icd_choices intel_vulkan_dir False intel_glxinfo
     = Inr [(''Auto: Intel Open Source (MESA: ANV)'', ''/usr/share/vulkan/icd.d/intel_icd.x86_64.json''),
            (''Intel Open Source (MESA: ANV)'', ''/usr/share/vulkan/icd.d/intel_icd.x86_64.json'')]"
    by code_simp
  then show ?thesis by simp
qed

text \<open>
  Claim C6 as it is written fails twice. On a host without \<^verbatim>\<open>glxinfo\<close> whose shell
  writes its message in ISO-8859-1, \<^verbatim>\<open>get_vk_icd_choices\<close> raises
  \<^verbatim>\<open>UnicodeDecodeError\<close>. On a host without any Vulkan directory whose \<^verbatim>\<open>glxinfo\<close>
  reports an Intel GPU, the list is the \<^verbatim>\<open>Auto\<close> entry of Intel alone, and the warning
  entry is not in it.
\<close>

theorem vk_raises_or_drops_sentinel_counterexample:
  "get_vk_icd_choices no_vulkan_dirs False no_glxinfo_latin1 = Inl UnicodeDecodeError
   \<and> get_vk_icd_choices no_vulkan_dirs False intel_glxinfo
       = Inr [(''Auto: Intel Open Source (MESA: ANV)'', [])]
   \<and> (''Auto: WARNING -- No Vulkan Loader detected!'', [])
       \<notin> set (projr (get_vk_icd_choices no_vulkan_dirs False intel_glxinfo))"
proof -
  have "get_vk_icd_choices no_vulkan_dirs False no_glxinfo_latin1 = Inl UnicodeDecodeError"
    by code_simp
  moreover have "get_vk_icd_choices no_vulkan_dirs False intel_glxinfo
     = Inr [(''Auto: Intel Open Source (MESA: ANV)'', [])]"
    by code_simp
  ultimately show ?thesis by simp
qed

text \<open>
  Claim C6, as amended. The lists of resolutions, outputs and Optimus choices are returned
  on every host; they start with their sentinel entries, and are the sentinel entries
  alone when nothing is found. \<^verbatim>\<open>get_vk_icd_choices\<close> raises \<^verbatim>\<open>UnicodeDecodeError\<close> when
  the bytes that the vendor command writes are not well-formed UTF-8, and only then.
  Otherwise it returns a list that is not empty. That list starts with the warning entry
  when the output names none of Intel, AMD and NVIDIA (as when \<^verbatim>\<open>glxinfo\<close> is absent),
  and is that entry alone when no loader file is found either; when the output names a
  vendor, an \<^verbatim>\<open>Auto\<close> entry stands first and the warning entry is not in the list.
\<close>

theorem choice_lists_sentinel:
  "take 1 (get_resolution_choices resolutions) = [(''Keep current'', ''off'')]
   \<and> get_resolution_choices [] = [(''Keep current'', ''off'')]
   \<and> take 2 (get_output_choices displays) = [(''Off'', ''off''), (''Primary'', ''primary'')]
   \<and> get_output_choices [] = [(''Off'', ''off''), (''Primary'', ''primary'')]
   \<and> take 1 (get_optirun_choices find_executable) = [(''Off'', ''off'')]
   \<and> ((\<forall>name. \<not> found (find_executable name))
        \<longrightarrow> get_optirun_choices find_executable = [(''Off'', ''off'')])
   \<and> (\<not> well_formed_utf8 (map of_char (vendor_output glob use_dri_prime communicate))
        \<longrightarrow> get_vk_icd_choices glob use_dri_prime communicate = Inl UnicodeDecodeError)
   \<and> (well_formed_utf8 (map of_char (vendor_output glob use_dri_prime communicate))
        \<longrightarrow> (\<exists>choices.
               get_vk_icd_choices glob use_dri_prime communicate = Inr choices
             \<and> choices \<noteq> []
             \<and> (\<not> names_vendor (vendor_output glob use_dri_prime communicate)
                  \<longrightarrow> take 1 choices = [(''Auto: WARNING -- No Vulkan Loader detected!'', [])])
             \<and> (\<not> names_vendor (vendor_output glob use_dri_prime communicate)
                  \<and> (\<forall>data_dir\<in>set VULKAN_DATA_DIRS.
                         glob (os_path_join data_dir [''icd.d'', ''*.json'']) = [])
                  \<longrightarrow> choices = [(''Auto: WARNING -- No Vulkan Loader detected!'', [])])
             \<and> (names_vendor (vendor_output glob use_dri_prime communicate)
                  \<longrightarrow> (''Auto: WARNING -- No Vulkan Loader detected!'', []) \<notin> set choices
                    \<and> take 4 (fst (hd choices)) = ''Auto'')))"
proof (intro conjI impI)
  show "take 1 (get_resolution_choices resolutions) = [(''Keep current'', ''off'')]"
    and "get_resolution_choices [] = [(''Keep current'', ''off'')]"
    by (simp_all add: get_resolution_choices_def list_insert_def)
  show "take 2 (get_output_choices displays) = [(''Off'', ''off''), (''Primary'', ''primary'')]"
    and "get_output_choices [] = [(''Off'', ''off''), (''Primary'', ''primary'')]"
    by (simp_all add: get_output_choices_def list_insert_def)
  show "take 1 (get_optirun_choices find_executable) = [(''Off'', ''off'')]"
    by (simp add: get_optirun_choices_closed_form)
  show "get_optirun_choices find_executable = [(''Off'', ''off'')]"
    if "\<forall>name. \<not> found (find_executable name)"
    using that by (simp add: get_optirun_choices_closed_form)
  show "get_vk_icd_choices glob use_dri_prime communicate = Inl UnicodeDecodeError"
    if "\<not> well_formed_utf8 (map of_char (vendor_output glob use_dri_prime communicate))"
    using that by (simp only: get_vk_icd_choices_closed_form if_False)
  show "\<exists>choices.
               get_vk_icd_choices glob use_dri_prime communicate = Inr choices
             \<and> choices \<noteq> []
             \<and> (\<not> names_vendor (vendor_output glob use_dri_prime communicate)
                  \<longrightarrow> take 1 choices = [(''Auto: WARNING -- No Vulkan Loader detected!'', [])])
             \<and> (\<not> names_vendor (vendor_output glob use_dri_prime communicate)
                  \<and> (\<forall>data_dir\<in>set VULKAN_DATA_DIRS.
                         glob (os_path_join data_dir [''icd.d'', ''*.json'']) = [])
                  \<longrightarrow> choices = [(''Auto: WARNING -- No Vulkan Loader detected!'', [])])
             \<and> (names_vendor (vendor_output glob use_dri_prime communicate)
                  \<longrightarrow> (''Auto: WARNING -- No Vulkan Loader detected!'', []) \<notin> set choices
                    \<and> take 4 (fst (hd choices)) = ''Auto'')"
    if wf: "well_formed_utf8 (map of_char (vendor_output glob use_dri_prime communicate))"
  proof -
    let ?out = "vendor_output glob use_dri_prime communicate"
    from get_vk_icd_choices_decodes [OF wf]
    obtain first found where res: "get_vk_icd_choices glob use_dri_prime communicate = Inr (first # found)"
      and first: "first =
             (if str_in ''Intel'' ?out
              then (''Auto: Intel Open Source (MESA: ANV)'', str_join '':'' (intel (find_loaders glob)))
              else if str_in ''AMD'' ?out
              then (''Auto: AMD RADV Open Source (MESA: RADV)'', str_join '':'' (amdradv (find_loaders glob)))
              else if str_in ''NVIDIA'' ?out
              then (''Auto: Nvidia Proprietary'', str_join '':'' (nvidia (find_loaders glob)))
              else (''Auto: WARNING -- No Vulkan Loader detected!'', []))"
      and labels: "fst ` set found
             \<subseteq> {''Intel Open Source (MESA: ANV)'', ''AMD RADV Open Source (MESA: RADV)'',
                 ''Nvidia Proprietary'', ''AMDVLK/AMDGPU-PRO Proprietary'',
                 ''AMDVLK Open source'', ''AMDGPU-PRO Proprietary''}"
      and none: "find_loaders glob
               = \<lparr>intel = [], amdradv = [], nvidia = [], amdvlk = [], amdvlkpro = []\<rparr>
              \<longrightarrow> found = []"
      by blast
    have a: "take 1 (first # found) = [(''Auto: WARNING -- No Vulkan Loader detected!'', [])]"
      if "\<not> names_vendor ?out"
      using that first by (simp add: names_vendor_def)
    have b: "first # found = [(''Auto: WARNING -- No Vulkan Loader detected!'', [])]"
      if "\<not> names_vendor ?out \<and> (\<forall>data_dir\<in>set VULKAN_DATA_DIRS.
                         glob (os_path_join data_dir [''icd.d'', ''*.json'']) = [])"
    proof -
      from that have "find_loaders glob
          = \<lparr>intel = [], amdradv = [], nvidia = [], amdvlk = [], amdvlkpro = []\<rparr>"
        by (intro find_loaders_none) simp
      with none have "found = []" by simp
      with that first show ?thesis by (simp add: names_vendor_def)
    qed
    have "(''Auto: WARNING -- No Vulkan Loader detected!'', v) \<notin> set found" for v
    proof
      assume "(''Auto: WARNING -- No Vulkan Loader detected!'', v) \<in> set found"
      then have "''Auto: WARNING -- No Vulkan Loader detected!'' \<in> fst ` set found"
        by force
      with labels show False by auto
    qed
    moreover have "fst first \<noteq> ''Auto: WARNING -- No Vulkan Loader detected!''"
      and "take 4 (fst first) = ''Auto''"
      if "names_vendor ?out"
      using that first by (auto simp: names_vendor_def)
    ultimately have c: "(''Auto: WARNING -- No Vulkan Loader detected!'', []) \<notin> set (first # found)
        \<and> take 4 (fst (hd (first # found))) = ''Auto''"
      if "names_vendor ?out"
      using that by (cases first) auto
    from res a b c show ?thesis by blast
  qed
qed

theorem choice_lists_sentinel_witness:
  "well_formed_utf8 (map of_char (vendor_output no_vulkan_dirs False no_glxinfo))
   \<and> \<not> names_vendor (vendor_output no_vulkan_dirs False no_glxinfo)
   \<and> get_vk_icd_choices no_vulkan_dirs False no_glxinfo
       = Inr [(''Auto: WARNING -- No Vulkan Loader detected!'', [])]
   \<and> \<not> well_formed_utf8 (map of_char (vendor_output no_vulkan_dirs False no_glxinfo_latin1))
   \<and> get_vk_icd_choices no_vulkan_dirs False no_glxinfo_latin1 = Inl UnicodeDecodeError
   \<and> get_optirun_choices no_executable = [(''Off'', ''off'')]
   \<and> get_resolution_choices [] = [(''Keep current'', ''off'')]
   \<and> get_output_choices [] = [(''Off'', ''off''), (''Primary'', ''primary'')]"
proof -
  have w: "well_formed_utf8 (map of_char (vendor_output no_vulkan_dirs False no_glxinfo))"
    by code_simp
  have a: "\<not> names_vendor (vendor_output no_vulkan_dirs False no_glxinfo)"
    by code_simp
  have b: "\<forall>data_dir\<in>set VULKAN_DATA_DIRS.
             no_vulkan_dirs (os_path_join data_dir [''icd.d'', ''*.json'']) = []"
    by (simp add: no_vulkan_dirs_def)
  have c: "\<forall>name. \<not> found (no_executable name)"
    by (simp add: no_executable_def found_def)
  have d: "\<not> well_formed_utf8 (map of_char (vendor_output no_vulkan_dirs False no_glxinfo_latin1))"
    by code_simp
  from choice_lists_sentinel
    [where glob = no_vulkan_dirs and use_dri_prime = False and communicate = no_glxinfo
       and find_executable = no_executable]
    w a b c
  have "get_vk_icd_choices no_vulkan_dirs False no_glxinfo
       = Inr [(''Auto: WARNING -- No Vulkan Loader detected!'', [])]"
    and "get_optirun_choices no_executable = [(''Off'', ''off'')]"
    and "get_resolution_choices [] = [(''Keep current'', ''off'')]"
    and "get_output_choices [] = [(''Off'', ''off''), (''Primary'', ''primary'')]"
    by blast+
  moreover from choice_lists_sentinel
    [where glob = no_vulkan_dirs and use_dri_prime = False and communicate = no_glxinfo_latin1]
    d
  have "get_vk_icd_choices no_vulkan_dirs False no_glxinfo_latin1 = Inl UnicodeDecodeError"
    by blast
  ultimately show ?thesis using w a d by blast
qed

end
